theory Spec2Isabelle
  imports Complex_Main
begin

section \<open>DataFrame rows and errors\<close>

text \<open>
  The notebook \<^verbatim>\<open>model_training.ipynb\<close> builds Spark ML stages that read one named
  column of a DataFrame and append another. A row is the list of its named cells, in
  schema order; a DataFrame is the list of its rows. Vectors are dense lists of reals:
  the notebook's doubles are modelled by real numbers.

  The stages are library code (Spark ML 3.5.1, the version of \<^verbatim>\<open>requirements.txt\<close>).
  What the notebook sets (the columns, the order of the stages, \<^verbatim>\<open>numFeatures\<close>, the
  labels) is written out; what a stage does with it follows the library; what the
  notebook cannot set (the lower-casing, the stop words, the hash, the optimiser, the
  random draws) is a parameter. A DataFrame has no schema apart from its rows: a stage checks the columns
  row by row, so a DataFrame with no rows passes every stage.
\<close>

datatype cell =
    Null
  | StringV string
  | LongV int
  | DoubleV real
  | ArrayV "string list"
  | VectorV "real list"

type_synonym row = "(string \<times> cell) list"

type_synonym dataframe = "row list"

text \<open>
  Every way a stage can raise: a missing input column, an output column that is already
  there, a cell of the wrong type, a null handed to a stage's function, an index outside
  an array, vectors of different sizes, fitting on no rows, and a training label that is
  not a class index.
\<close>

datatype error =
    ColumnNotFound string
  | ColumnExists string
  | TypeMismatch string
  | NullPointer string
  | IndexOutOfBounds int
  | DimensionMismatch nat nat
  | EmptyDataset
  | InvalidLabel real

definition getCol :: "row \<Rightarrow> string \<Rightarrow> error + cell" where
  "getCol r c = (case map_of r c of None \<Rightarrow> Inl (ColumnNotFound c) | Some v \<Rightarrow> Inr v)"

definition appendColumn :: "row \<Rightarrow> string \<Rightarrow> cell \<Rightarrow> error + row" where
  "appendColumn r c v = (if c \<in> set (map fst r) then Inl (ColumnExists c) else Inr (r @ [(c, v)]))"

fun traverse :: "('a \<Rightarrow> error + 'b) \<Rightarrow> 'a list \<Rightarrow> error + 'b list" where
  "traverse f [] = Inr []"
| "traverse f (x # xs) =
     (case f x of
        Inl e \<Rightarrow> Inl e
      | Inr y \<Rightarrow> (case traverse f xs of Inl e \<Rightarrow> Inl e | Inr ys \<Rightarrow> Inr (y # ys)))"

section \<open>The feature stages\<close>

subsection \<open>Tokenizer\<close>

text \<open>
  A string is the list of the bytes of its UTF-8 encoding, so that a review may hold any
  Unicode text.

  \<^verbatim>\<open>Tokenizer(inputCol="text", outputCol="words")\<close> lower-cases the string with Java's
  \<^verbatim>\<open>toLowerCase(Locale.ROOT)\<close> and splits it at every white-space character, as Java's
  \<^verbatim>\<open>split("\\s")\<close> does: a string with no white space is its own single token (the empty
  string too), and trailing empty tokens are removed. The white-space characters of
  \<^verbatim>\<open>\s\<close> are six ASCII characters, and no byte of a longer UTF-8 sequence is one of them,
  so splitting the bytes splits the text. Lower-casing follows the case mappings of
  Unicode, which are the library's: the function is a parameter of the stage.
\<close>

definition isWhitespace :: "char \<Rightarrow> bool" where
  "isWhitespace c = (c \<in> set [CHR '' '', CHR 0x09, CHR 0x0A, CHR 0x0B, CHR 0x0C, CHR 0x0D])"

fun splitAll :: "string \<Rightarrow> string \<Rightarrow> string list" where
  "splitAll acc [] = [rev acc]"
| "splitAll acc (c # cs) =
     (if isWhitespace c then rev acc # splitAll [] cs else splitAll (c # acc) cs)"

fun dropTrailingEmpty :: "string list \<Rightarrow> string list" where
  "dropTrailingEmpty [] = []"
| "dropTrailingEmpty (w # ws) =
     (case dropTrailingEmpty ws of
        [] \<Rightarrow> (if w = [] then [] else [w])
      | v # vs \<Rightarrow> w # v # vs)"

definition split :: "string \<Rightarrow> string list" where
  "split s = (if list_ex isWhitespace s then dropTrailingEmpty (splitAll [] s) else [s])"

definition tokenize :: "(string \<Rightarrow> string) \<Rightarrow> string \<Rightarrow> string list" where
  "tokenize lower s = split (lower s)"

subsection \<open>StopWordsRemover\<close>

text \<open>
  \<^verbatim>\<open>StopWordsRemover(inputCol="words", outputCol="filtered_words")\<close> keeps the tokens
  that are not stop words, compared without regard to case (the default): the token and
  the stop words are lower-cased, with Java's \<^verbatim>\<open>toLowerCase\<close> in the default locale of
  the JVM. The list of stop words and the lower-casing are parameters of the stage.
\<close>

definition removeStopWords ::
  "(string \<Rightarrow> string) \<Rightarrow> string list \<Rightarrow> string list \<Rightarrow> string list" where
  "removeStopWords lower stopWords terms =
     filter (\<lambda>w. lower w \<notin> set (map lower stopWords)) terms"

subsection \<open>HashingTF\<close>

text \<open>
  \<^verbatim>\<open>HashingTF(inputCol="filtered_words", outputCol="raw_features", numFeatures=10000)\<close>
  counts, for every term, one occurrence at the index the term hashes to, the hash taken
  non-negatively modulo \<open>numFeatures\<close>. The hash function of the library is a parameter.
\<close>

definition indexOf :: "(string \<Rightarrow> int) \<Rightarrow> nat \<Rightarrow> string \<Rightarrow> nat" where
  "indexOf hashFunc n t = nat (hashFunc t mod int n)"

fun termFrequencies :: "(string \<Rightarrow> int) \<Rightarrow> nat \<Rightarrow> string list \<Rightarrow> real list \<Rightarrow> real list" where
  "termFrequencies hashFunc n [] tf = tf"
| "termFrequencies hashFunc n (t # ts) tf =
     termFrequencies hashFunc n ts (tf[indexOf hashFunc n t := tf ! indexOf hashFunc n t + 1])"

definition hashingTF :: "(string \<Rightarrow> int) \<Rightarrow> nat \<Rightarrow> string list \<Rightarrow> real list" where
  "hashingTF hashFunc n terms = termFrequencies hashFunc n terms (replicate n 0)"

subsection \<open>IDF\<close>

text \<open>
  \<^verbatim>\<open>IDF(inputCol="raw_features", outputCol="features")\<close> is an estimator. Fitting counts,
  over the \<open>m\<close> vectors of the column, in how many of them each index is positive, and
  gives the weight \<open>ln ((m + 1) / (df + 1))\<close>; it raises on no vectors. The fitted model
  multiplies a vector by the weights, index by index, and keeps the vector's size; a
  vector longer than the weights reads outside the weight array.
\<close>

definition documentFrequency :: "real list list \<Rightarrow> nat \<Rightarrow> nat" where
  "documentFrequency docs j = length (filter (\<lambda>v. v ! j > 0) docs)"

definition idfWeights :: "real list list \<Rightarrow> error + real list" where
  "idfWeights docs =
     (case docs of
        [] \<Rightarrow> Inl EmptyDataset
      | d # ds \<Rightarrow>
          (case filter (\<lambda>v. length v \<noteq> length d) ds of
             v # _ \<Rightarrow> Inl (DimensionMismatch (length d) (length v))
           | [] \<Rightarrow>
               Inr (map (\<lambda>j. ln ((real (length docs) + 1) / (real (documentFrequency docs j) + 1)))
                      [0..<length d])))"

definition idfTransform :: "real list \<Rightarrow> real list \<Rightarrow> error + real list" where
  "idfTransform w v =
     (if length v \<le> length w then Inr (map (\<lambda>j. v ! j * w ! j) [0..<length v])
      else Inl (IndexOutOfBounds (int (length w))))"

section \<open>Logistic regression\<close>

text \<open>
  \<^verbatim>\<open>lr_model = lr.fit(training_data)\<close> is a multinomial logistic regression model (the
  family Spark picks for the notebook's three labels 0, 1, 2): a coefficient matrix with
  one row per class and an intercept per class. The raw prediction of a feature vector
  is the vector of margins, the probability is its softmax (computed after subtracting
  the largest margin), and the prediction is the index of the first largest margin,
  \<open>-1\<close> for no classes. Spark picks this family for three or more classes; the binomial
  family, which it picks for fewer, computes its output otherwise and is not modelled, so
  the theorems about the model's output are stated for the three classes of the
  notebook's labels.
\<close>

record lrModel =
  numClasses :: nat
  numFeatures :: nat
  coefficientMatrix :: "nat \<Rightarrow> nat \<Rightarrow> real"
  interceptVector :: "nat \<Rightarrow> real"

definition margins :: "lrModel \<Rightarrow> real list \<Rightarrow> real list" where
  "margins m x =
     map (\<lambda>c. interceptVector m c + (\<Sum>j\<leftarrow>[0..<numFeatures m]. coefficientMatrix m c j * x ! j))
       [0..<numClasses m]"

definition softmax :: "real list \<Rightarrow> real list" where
  "softmax zs =
     (case zs of
        [] \<Rightarrow> []
      | z # rest \<Rightarrow>
          (let maxMargin = fold max rest z;
               es = map (\<lambda>y. exp (y - maxMargin)) zs
           in map (\<lambda>e. e / sum_list es) es))"

fun argmaxFrom :: "real list \<Rightarrow> nat \<Rightarrow> nat \<Rightarrow> real \<Rightarrow> nat" where
  "argmaxFrom [] i maxIdx maxValue = maxIdx"
| "argmaxFrom (v # vs) i maxIdx maxValue =
     (if v > maxValue then argmaxFrom vs (Suc i) i v else argmaxFrom vs (Suc i) maxIdx maxValue)"

definition argmax :: "real list \<Rightarrow> int" where
  "argmax vs = (case vs of [] \<Rightarrow> - 1 | v # rest \<Rightarrow> int (argmaxFrom rest 1 0 v))"

section \<open>Transformers on rows and DataFrames\<close>

definition andThen :: "error + 'a \<Rightarrow> ('a \<Rightarrow> error + 'b) \<Rightarrow> error + 'b" where
  "andThen x f = (case x of Inl e \<Rightarrow> Inl e | Inr y \<Rightarrow> f y)"

text \<open>
  The fitted stages, each with its input and output column. The logistic regression
  model appends \<^verbatim>\<open>rawPrediction\<close>, \<^verbatim>\<open>probability\<close> and \<^verbatim>\<open>prediction\<close>, the default
  names, which the notebook does not change.
\<close>

datatype transformer =
    Tokenizer string string "string \<Rightarrow> string"
  | StopWordsRemover string string "string list" "string \<Rightarrow> string"
  | HashingTF string string nat "string \<Rightarrow> int"
  | IDFModel string string "real list"
  | LogisticRegressionModel string lrModel
  | IndexToString string string "string list"

definition toInt :: "real \<Rightarrow> int" where
  "toInt d = (if d \<ge> 0 then \<lfloor>d\<rfloor> else \<lceil>d\<rceil>)"

definition labelOfIndex :: "string list \<Rightarrow> real \<Rightarrow> error + cell" where
  "labelOfIndex labels d =
     (let idx = toInt d
      in if 0 \<le> idx \<and> idx < int (length labels) then Inr (StringV (labels ! nat idx))
         else Inl (IndexOutOfBounds idx))"

text \<open>
  One stage on one row. Every stage needs its input column, with a cell of the stage's
  input type, and refuses an output column that is already there. None of the stages is
  given a way to handle nulls by the notebook: a null cell reaches the stage's function,
  which raises on it. \<^verbatim>\<open>IndexToString\<close> alone passes a null on, since its function takes
  a primitive double and is not called on a null.
\<close>

fun transformRow :: "transformer \<Rightarrow> row \<Rightarrow> error + row" where
  "transformRow (Tokenizer inputCol outputCol lower) r =
     andThen (getCol r inputCol) (\<lambda>v.
       case v of
         StringV s \<Rightarrow> appendColumn r outputCol (ArrayV (tokenize lower s))
       | Null \<Rightarrow> Inl (NullPointer inputCol)
       | _ \<Rightarrow> Inl (TypeMismatch inputCol))"
| "transformRow (StopWordsRemover inputCol outputCol stopWords lower) r =
     andThen (getCol r inputCol) (\<lambda>v.
       case v of
         ArrayV ws \<Rightarrow> appendColumn r outputCol (ArrayV (removeStopWords lower stopWords ws))
       | Null \<Rightarrow> Inl (NullPointer inputCol)
       | _ \<Rightarrow> Inl (TypeMismatch inputCol))"
| "transformRow (HashingTF inputCol outputCol n hashFunc) r =
     andThen (getCol r inputCol) (\<lambda>v.
       case v of
         ArrayV ws \<Rightarrow> appendColumn r outputCol (VectorV (hashingTF hashFunc n ws))
       | Null \<Rightarrow> Inl (NullPointer inputCol)
       | _ \<Rightarrow> Inl (TypeMismatch inputCol))"
| "transformRow (IDFModel inputCol outputCol w) r =
     andThen (getCol r inputCol) (\<lambda>v.
       case v of
         VectorV x \<Rightarrow> andThen (idfTransform w x) (\<lambda>y. appendColumn r outputCol (VectorV y))
       | Null \<Rightarrow> Inl (NullPointer inputCol)
       | _ \<Rightarrow> Inl (TypeMismatch inputCol))"
| "transformRow (LogisticRegressionModel featuresCol m) r =
     andThen (getCol r featuresCol) (\<lambda>v.
       case v of
         VectorV x \<Rightarrow>
           if length x \<noteq> numFeatures m then Inl (DimensionMismatch (numFeatures m) (length x))
           else
             andThen (appendColumn r ''rawPrediction'' (VectorV (margins m x))) (\<lambda>r1.
             andThen (appendColumn r1 ''probability'' (VectorV (softmax (margins m x)))) (\<lambda>r2.
             appendColumn r2 ''prediction'' (DoubleV (real_of_int (argmax (margins m x))))))
       | Null \<Rightarrow> Inl (NullPointer featuresCol)
       | _ \<Rightarrow> Inl (TypeMismatch featuresCol))"
| "transformRow (IndexToString inputCol outputCol labels) r =
     andThen (getCol r inputCol) (\<lambda>v.
       case v of
         DoubleV d \<Rightarrow> andThen (labelOfIndex labels d) (appendColumn r outputCol)
       | LongV k \<Rightarrow> andThen (labelOfIndex labels (real_of_int k)) (appendColumn r outputCol)
       | Null \<Rightarrow> appendColumn r outputCol Null
       | _ \<Rightarrow> Inl (TypeMismatch inputCol))"

definition transform :: "transformer \<Rightarrow> dataframe \<Rightarrow> error + dataframe" where
  "transform t df = traverse (transformRow t) df"

text \<open>
  A \<^verbatim>\<open>PipelineModel\<close> is the list of its fitted stages; it transforms a DataFrame by
  each stage in turn.
\<close>

fun pipelineModelTransform :: "transformer list \<Rightarrow> dataframe \<Rightarrow> error + dataframe" where
  "pipelineModelTransform [] df = Inr df"
| "pipelineModelTransform (t # ts) df = andThen (transform t df) (pipelineModelTransform ts)"

section \<open>Estimators and \<^verbatim>\<open>Pipeline.fit\<close>\<close>

text \<open>
  What the notebook takes from the library and cannot configure: the two lower-casings
  (in the root locale for the tokenizer, in the JVM's default locale for the stop words),
  the default English stop words, the hash of a term, and the optimiser of the logistic
  regression, which gets \<^verbatim>\<open>maxIter\<close>, \<^verbatim>\<open>regParam\<close>, \<^verbatim>\<open>elasticNetParam\<close>, the number of
  classes, the number of features and the labelled vectors, and returns the coefficient
  matrix and the intercepts. They are parameters of the model; no theorem depends on what
  they compute.
\<close>

record sparkLib =
  lowerCaseRoot :: "string \<Rightarrow> string"
  lowerCaseDefault :: "string \<Rightarrow> string"
  defaultStopWords :: "string list"
  hashFunc :: "string \<Rightarrow> int"
  optimize :: "nat \<Rightarrow> real \<Rightarrow> real \<Rightarrow> nat \<Rightarrow> nat \<Rightarrow> (real list \<times> real) list
                \<Rightarrow> (nat \<Rightarrow> nat \<Rightarrow> real) \<times> (nat \<Rightarrow> real)"

datatype estimator =
    IDF string string
  | LogisticRegression string string nat real real

datatype pipelineStage = Transformer transformer | Estimator estimator

definition vectorOf :: "string \<Rightarrow> row \<Rightarrow> error + real list" where
  "vectorOf c r =
     andThen (getCol r c) (\<lambda>v.
       case v of
         VectorV x \<Rightarrow> Inr x
       | Null \<Rightarrow> Inl (NullPointer c)
       | _ \<Rightarrow> Inl (TypeMismatch c))"

definition labelOf :: "string \<Rightarrow> row \<Rightarrow> error + real" where
  "labelOf c r =
     andThen (getCol r c) (\<lambda>v.
       case v of
         DoubleV d \<Rightarrow> Inr d
       | LongV k \<Rightarrow> Inr (real_of_int k)
       | Null \<Rightarrow> Inl (NullPointer c)
       | _ \<Rightarrow> Inl (TypeMismatch c))"

definition validLabel :: "real \<Rightarrow> bool" where
  "validLabel y = (0 \<le> y \<and> y = real_of_int \<lfloor>y\<rfloor>)"

text \<open>
  Fitting the logistic regression: the labels are class indices, the number of classes
  is the largest label plus one, the number of features is the size of the vectors.
\<close>

definition fitLogisticRegression ::
  "sparkLib \<Rightarrow> string \<Rightarrow> string \<Rightarrow> nat \<Rightarrow> real \<Rightarrow> real \<Rightarrow> dataframe \<Rightarrow> error + lrModel" where
  "fitLogisticRegression lib featuresCol labelCol maxIter regParam elasticNetParam df =
     andThen (traverse (vectorOf featuresCol) df) (\<lambda>xs.
     andThen (traverse (labelOf labelCol) df) (\<lambda>ys.
       case xs of
         [] \<Rightarrow> Inl EmptyDataset
       | x # _ \<Rightarrow>
           (case filter (\<lambda>v. length v \<noteq> length x) xs of
              v # _ \<Rightarrow> Inl (DimensionMismatch (length x) (length v))
            | [] \<Rightarrow>
                (case filter (\<lambda>y. \<not> validLabel y) ys of
                   y # _ \<Rightarrow> Inl (InvalidLabel y)
                 | [] \<Rightarrow>
                     (let k = Suc (nat \<lfloor>fold max ys 0\<rfloor>);
                          n = length x;
                          wb = optimize lib maxIter regParam elasticNetParam k n (zip xs ys)
                      in Inr \<lparr>numClasses = k, numFeatures = n,
                               coefficientMatrix = fst wb, interceptVector = snd wb\<rparr>)))))"

fun estimatorFit :: "sparkLib \<Rightarrow> estimator \<Rightarrow> dataframe \<Rightarrow> error + transformer" where
  "estimatorFit lib (IDF inputCol outputCol) df =
     andThen (traverse (vectorOf inputCol) df) (\<lambda>docs.
     andThen (idfWeights docs) (\<lambda>w. Inr (IDFModel inputCol outputCol w)))"
| "estimatorFit lib (LogisticRegression featuresCol labelCol maxIter regParam elasticNetParam) df =
     andThen (fitLogisticRegression lib featuresCol labelCol maxIter regParam elasticNetParam df)
       (\<lambda>m. Inr (LogisticRegressionModel featuresCol m))"

fun isEstimator :: "pipelineStage \<Rightarrow> bool" where
  "isEstimator (Estimator e) = True"
| "isEstimator (Transformer t) = False"

fun stageFit :: "sparkLib \<Rightarrow> pipelineStage \<Rightarrow> dataframe \<Rightarrow> error + transformer" where
  "stageFit lib (Transformer t) df = Inr t"
| "stageFit lib (Estimator e) df = estimatorFit lib e df"

fun transformersOf :: "pipelineStage list \<Rightarrow> transformer list" where
  "transformersOf [] = []"
| "transformersOf (Transformer t # ss) = t # transformersOf ss"
| "transformersOf (Estimator e # ss) = transformersOf ss"

text \<open>
  \<^verbatim>\<open>Pipeline.fit\<close>: up to the last estimator, every stage is fitted on the DataFrame as
  the stages before it have transformed it, and (but for the last estimator) transforms
  it for the stages after; the stages after the last estimator are transformers and are
  kept as they are.
\<close>

fun pipelineFit :: "sparkLib \<Rightarrow> pipelineStage list \<Rightarrow> dataframe \<Rightarrow> error + transformer list" where
  "pipelineFit lib [] df = Inr []"
| "pipelineFit lib (s # ss) df =
     (if \<not> list_ex isEstimator (s # ss) then Inr (transformersOf (s # ss))
      else
        andThen (stageFit lib s df) (\<lambda>t.
          if list_ex isEstimator ss then
            andThen (transform t df) (\<lambda>df'.
            andThen (pipelineFit lib ss df') (\<lambda>ts. Inr (t # ts)))
          else Inr (t # transformersOf ss)))"

section \<open>The notebook\<close>

text \<open>
  The objects of \<^verbatim>\<open>model_training.ipynb\<close>, under its names. The notebook reads
  \<^verbatim>\<open>df_cleaned\<close>, whose rows already carry \<^verbatim>\<open>features\<close> and \<^verbatim>\<open>label\<close>, splits it, fits the
  logistic regression on the training part, applies the fitted model to the test part
  and saves the fitted model.
\<close>

definition sentiment_labels :: "string list" where
  "sentiment_labels = [''negative'', ''neutral'', ''positive'']"

definition lr :: estimator where
  "lr = LogisticRegression ''features'' ''label'' 10 0.3 0.8"

definition lr_model :: "sparkLib \<Rightarrow> dataframe \<Rightarrow> error + transformer" where
  "lr_model lib training_data = estimatorFit lib lr training_data"


text \<open>
  The feature stages, the stage that names a prediction, and the two pipelines. The
  notebook builds them and neither fits nor applies any of them; \<^verbatim>\<open>index_to_string\<close> is
  in neither pipeline.
\<close>

definition tokenizer :: "sparkLib \<Rightarrow> transformer" where
  "tokenizer lib = Tokenizer ''text'' ''words'' (lowerCaseRoot lib)"

definition remover :: "sparkLib \<Rightarrow> transformer" where
  "remover lib =
     StopWordsRemover ''words'' ''filtered_words'' (defaultStopWords lib) (lowerCaseDefault lib)"

definition hashing_tf :: "sparkLib \<Rightarrow> transformer" where
  "hashing_tf lib = HashingTF ''filtered_words'' ''raw_features'' 10000 (hashFunc lib)"

definition idf :: estimator where
  "idf = IDF ''raw_features'' ''features''"

definition index_to_string :: transformer where
  "index_to_string = IndexToString ''prediction'' ''predicted_sentiment'' sentiment_labels"

definition pipeline :: "sparkLib \<Rightarrow> pipelineStage list" where
  "pipeline lib =
     [Transformer (tokenizer lib), Transformer (remover lib), Transformer (hashing_tf lib),
      Estimator idf, Estimator lr]"

definition pipeline_for_saving :: "sparkLib \<Rightarrow> transformer \<Rightarrow> pipelineStage list" where
  "pipeline_for_saving lib lrm =
     [Transformer (tokenizer lib), Transformer (remover lib), Transformer (hashing_tf lib),
      Estimator idf, Transformer lrm]"

text \<open>
  \<^verbatim>\<open>lr_model.save(model_output_path)\<close>: what the notebook writes to
  \<^verbatim>\<open>lr_model_score_labeling\<close> is the fitted logistic regression model alone; neither
  pipeline is fitted or saved.
\<close>

definition lr_model_score_labeling :: "sparkLib \<Rightarrow> dataframe \<Rightarrow> error + transformer" where
  "lr_model_score_labeling lib training_data = lr_model lib training_data"

section \<open>The training split\<close>

text \<open>
  \<^verbatim>\<open>(training_data, test_data) = df_cleaned.randomSplit([0.8, 0.2], seed=42)\<close>.
  A DataFrame is held in partitions. \<^verbatim>\<open>randomSplit\<close> refuses a negative weight and a
  weight sum that is not positive; without a seed it draws one from the interpreter's
  random generator, whose state \<open>'g\<close> is the only thing that differs between two runs on
  the same data. It normalises the weights to cumulative bounds and, for every pair of
  consecutive bounds, samples the rows of each partition, sorted, with a generator seeded
  by the seed plus the partition's index: row \<open>i\<close> of the sorted partition is kept when
  the generator's \<open>i\<close>-th draw lies in \<open>[lb, ub)\<close>.

  The library's parts are parameters: the sort within a partition, the draws of a seeded
  generator, and the interpreter's generator.
\<close>

type_synonym partitioned = "row list list"

record 'g sparkRandom =
  sortWithinPartition :: "row list \<Rightarrow> row list"
  nextDouble :: "int \<Rightarrow> nat \<Rightarrow> real"
  randint :: "'g \<Rightarrow> int \<times> 'g"

datatype splitError = NegativeWeight real | NonPositiveSum real

fun scanLeft :: "('b \<Rightarrow> 'a \<Rightarrow> 'b) \<Rightarrow> 'b \<Rightarrow> 'a list \<Rightarrow> 'b list" where
  "scanLeft f z [] = [z]"
| "scanLeft f z (x # xs) = z # scanLeft f (f z x) xs"

definition normalizedCumWeights :: "real list \<Rightarrow> real list" where
  "normalizedCumWeights weights = scanLeft (+) 0 (map (\<lambda>w. w / sum_list weights) weights)"

definition samplePartition ::
  "'g sparkRandom \<Rightarrow> real \<Rightarrow> real \<Rightarrow> int \<Rightarrow> nat \<Rightarrow> row list \<Rightarrow> row list" where
  "samplePartition lib lb ub seed k p =
     map snd
       (filter (\<lambda>(i, r). lb \<le> nextDouble lib (seed + int k) i \<and> nextDouble lib (seed + int k) i < ub)
          (enumerate 0 (sortWithinPartition lib p)))"

definition sample :: "'g sparkRandom \<Rightarrow> real \<Rightarrow> real \<Rightarrow> int \<Rightarrow> partitioned \<Rightarrow> partitioned" where
  "sample lib lb ub seed df = map (\<lambda>(k, p). samplePartition lib lb ub seed k p) (enumerate 0 df)"

definition randomSplit ::
  "'g sparkRandom \<Rightarrow> 'g \<Rightarrow> real list \<Rightarrow> int option \<Rightarrow> partitioned
     \<Rightarrow> (splitError + partitioned list) \<times> 'g" where
  "randomSplit lib g weights seed df =
     (case filter (\<lambda>w. w < 0) weights of
        w # _ \<Rightarrow> (Inl (NegativeWeight w), g)
      | [] \<Rightarrow>
          (let (s, g') = (case seed of Some s \<Rightarrow> (s, g) | None \<Rightarrow> randint lib g)
           in if sum_list weights \<le> 0 then (Inl (NonPositiveSum (sum_list weights)), g')
              else
                (Inr (map (\<lambda>(lb, ub). sample lib lb ub s df)
                        (zip (normalizedCumWeights weights) (tl (normalizedCumWeights weights)))),
                 g')))"

definition training_and_test ::
  "'g sparkRandom \<Rightarrow> 'g \<Rightarrow> partitioned \<Rightarrow> (splitError + partitioned list) \<times> 'g" where
  "training_and_test lib g df_cleaned = randomSplit lib g [0.8, 0.2] (Some 42) df_cleaned"

section \<open>Review messages and their JSON format\<close>

text \<open>
  Modelled from the spec: the review message of the data model (section 3) and the topic
  message format (section 6). The producer and consumer scripts that serialize and
  deserialize messages are not among the sources. A message has the fields
  \<^verbatim>\<open>review_id\<close>, \<^verbatim>\<open>app_id\<close> (one of the five known apps, written as its package name),
  \<^verbatim>\<open>text\<close> (the field is named \<open>text'\<close> here), \<^verbatim>\<open>original_score\<close> and \<^verbatim>\<open>timestamp\<close>.
\<close>

datatype app = TouchNGo | Boost | Grab | Setel | ShopeePay

record review_message =
  review_id :: string
  app_id :: app
  text' :: string
  original_score :: int
  timestamp :: string

fun package_of :: "app \<Rightarrow> string" where
  "package_of TouchNGo = ''my.com.tngdigital.ewallet''"
| "package_of Boost = ''my.com.myboost''"
| "package_of Grab = ''com.grabtaxi.passenger''"
| "package_of Setel = ''com.setel.mobile''"
| "package_of ShopeePay = ''com.shopeepay.my''"

definition configured_apps :: "app list" where
  "configured_apps = [TouchNGo, Boost, Grab, Setel, ShopeePay]"

definition app_of_package :: "string \<Rightarrow> app option" where
  "app_of_package s = map_of (map (\<lambda>a. (package_of a, a)) configured_apps) s"

text \<open>
  Modelled from the spec: the JSON object of a message, with the five fields of section 6
  as its members; strings for the identifiers, the text and the time, a number for the
  score.
\<close>

datatype json = JString string | JNumber int

type_synonym json_object = "(string \<times> json) list"

definition to_json :: "review_message \<Rightarrow> json_object" where
  "to_json m =
     [(''review_id'', JString (review_id m)),
      (''app_id'', JString (package_of (app_id m))),
      (''text'', JString (text' m)),
      (''original_score'', JNumber (original_score m)),
      (''timestamp'', JString (timestamp m))]"

definition from_json :: "json_object \<Rightarrow> review_message option" where
  "from_json obj =
     (case (map_of obj ''review_id'', map_of obj ''app_id'', map_of obj ''text'',
            map_of obj ''original_score'', map_of obj ''timestamp'') of
        (Some (JString i), Some (JString p), Some (JString t), Some (JNumber s), Some (JString w)) \<Rightarrow>
          (case app_of_package p of
             None \<Rightarrow> None
           | Some a \<Rightarrow>
               Some \<lparr>review_id = i, app_id = a, text' = t, original_score = s, timestamp = w\<rparr>)
      | _ \<Rightarrow> None)"

text \<open>
  Modelled from the spec: the JSON text of an object. Strings are byte strings between
  double quotes; a double quote and a backslash are escaped with a backslash, a control
  character is written \<^verbatim>\<open>\u00XX\<close>. Numbers are decimal integers. Members are written
  \<^verbatim>\<open>"key": value\<close> and separated by a comma and a space.
\<close>

definition hexDigit :: "nat \<Rightarrow> char" where
  "hexDigit n = ''0123456789abcdef'' ! n"

definition escapeChar :: "char \<Rightarrow> string" where
  "escapeChar c =
     (if c = CHR 0x22 then [CHR 0x5C, CHR 0x22]
      else if c = CHR 0x5C then [CHR 0x5C, CHR 0x5C]
      else if (of_char c :: nat) < 32
        then [CHR 0x5C, CHR ''u'', CHR ''0'', CHR ''0'',
              hexDigit ((of_char c :: nat) div 16), hexDigit ((of_char c :: nat) mod 16)]
      else [c])"

definition escape :: "string \<Rightarrow> string" where
  "escape s = concat (map escapeChar s)"

definition render_string :: "string \<Rightarrow> string" where
  "render_string s = CHR 0x22 # escape s @ [CHR 0x22]"

definition digitChar :: "nat \<Rightarrow> char" where
  "digitChar d = char_of (48 + d)"

function digits :: "nat \<Rightarrow> string" where
  "digits n = (if n < 10 then [digitChar n] else digits (n div 10) @ [digitChar (n mod 10)])"
  by pat_completeness auto
termination
  by (relation "measure (\<lambda>n. n)") auto

declare digits.simps [simp del]

definition render_int :: "int \<Rightarrow> string" where
  "render_int i = (if i < 0 then CHR ''-'' # digits (nat (- i)) else digits (nat i))"

fun render_json :: "json \<Rightarrow> string" where
  "render_json (JString s) = render_string s"
| "render_json (JNumber i) = render_int i"

definition render_member :: "string \<times> json \<Rightarrow> string" where
  "render_member kv = render_string (fst kv) @ '': '' @ render_json (snd kv)"

fun render_members :: "json_object \<Rightarrow> string" where
  "render_members [] = []"
| "render_members [kv] = render_member kv"
| "render_members (kv # kvs) = render_member kv @ '', '' @ render_members kvs"

definition render :: "json_object \<Rightarrow> string" where
  "render obj = ''{'' @ render_members obj @ ''}''"

text \<open>
  Modelled from the spec: reading a JSON text back. White space between tokens is
  skipped; a string may use the escapes \<^verbatim>\<open>\"\<close>, \<^verbatim>\<open>\\\<close>, \<^verbatim>\<open>\/\<close>, \<^verbatim>\<open>\b\<close>, \<^verbatim>\<open>\f\<close>,
  \<^verbatim>\<open>\n\<close>, \<^verbatim>\<open>\r\<close>, \<^verbatim>\<open>\t\<close> and \<^verbatim>\<open>\u00XX\<close>, and may hold no raw control character;
  anything else is refused (\<open>None\<close>). The members loop runs on fuel, one unit per
  member; \<open>parse\<close> gives it the length of the text, which is more than its members.
\<close>

definition hexValue :: "char \<Rightarrow> nat option" where
  "hexValue c =
     (let n = (of_char c :: nat)
      in if 48 \<le> n \<and> n \<le> 57 then Some (n - 48)
         else if 97 \<le> n \<and> n \<le> 102 then Some (n - 87)
         else if 65 \<le> n \<and> n \<le> 70 then Some (n - 55)
         else None)"

definition simpleEscape :: "char \<Rightarrow> char option" where
  "simpleEscape e =
     (if e = CHR 0x22 then Some (CHR 0x22)
      else if e = CHR 0x5C then Some (CHR 0x5C)
      else if e = CHR ''/'' then Some (CHR ''/'')
      else if e = CHR ''b'' then Some (CHR 0x08)
      else if e = CHR ''f'' then Some (CHR 0x0C)
      else if e = CHR ''n'' then Some (CHR 0x0A)
      else if e = CHR ''r'' then Some (CHR 0x0D)
      else if e = CHR ''t'' then Some (CHR 0x09)
      else None)"

definition unicodeEscape :: "char \<Rightarrow> char \<Rightarrow> char \<Rightarrow> char \<Rightarrow> char option" where
  "unicodeEscape a b c d =
     (if a = CHR ''0'' \<and> b = CHR ''0'' then
        (case (hexValue c, hexValue d) of
           (Some h, Some l) \<Rightarrow> Some (char_of (16 * h + l))
         | _ \<Rightarrow> None)
      else None)"

fun parse_string_body :: "string \<Rightarrow> (string \<times> string) option" where
  "parse_string_body [] = None"
| "parse_string_body (c # cs) =
     (if c = CHR 0x22 then Some ([], cs)
      else if c = CHR 0x5C then
        (case cs of
           [] \<Rightarrow> None
         | e # rest \<Rightarrow>
             (if e = CHR ''u'' then
                (case rest of
                   a # b # x # y # rest' \<Rightarrow>
                     (case unicodeEscape a b x y of
                        None \<Rightarrow> None
                      | Some u \<Rightarrow> map_option (\<lambda>(s, r). (u # s, r)) (parse_string_body rest'))
                 | _ \<Rightarrow> None)
              else
                (case simpleEscape e of
                   None \<Rightarrow> None
                 | Some u \<Rightarrow> map_option (\<lambda>(s, r). (u # s, r)) (parse_string_body rest))))
      else if (of_char c :: nat) < 32 then None
      else map_option (\<lambda>(s, r). (c # s, r)) (parse_string_body cs))"

definition isDigit :: "char \<Rightarrow> bool" where
  "isDigit c = (48 \<le> (of_char c :: nat) \<and> (of_char c :: nat) \<le> 57)"

definition digitsValue :: "string \<Rightarrow> nat" where
  "digitsValue ds = foldl (\<lambda>a c. 10 * a + ((of_char c :: nat) - 48)) 0 ds"

definition parse_nat :: "string \<Rightarrow> (nat \<times> string) option" where
  "parse_nat s =
     (case takeWhile isDigit s of
        [] \<Rightarrow> None
      | d # ds \<Rightarrow> Some (digitsValue (d # ds), dropWhile isDigit s))"

definition parse_int :: "string \<Rightarrow> (int \<times> string) option" where
  "parse_int s =
     (case s of
        [] \<Rightarrow> None
      | c # cs \<Rightarrow>
          (if c = CHR ''-'' then map_option (\<lambda>(n, r). (- int n, r)) (parse_nat cs)
           else map_option (\<lambda>(n, r). (int n, r)) (parse_nat s)))"

definition isJsonSpace :: "char \<Rightarrow> bool" where
  "isJsonSpace c = (c \<in> set [CHR '' '', CHR 0x09, CHR 0x0A, CHR 0x0D])"

definition skip_ws :: "string \<Rightarrow> string" where
  "skip_ws s = dropWhile isJsonSpace s"

definition parse_value :: "string \<Rightarrow> (json \<times> string) option" where
  "parse_value s =
     (case s of
        [] \<Rightarrow> None
      | c # cs \<Rightarrow>
          (if c = CHR 0x22 then map_option (\<lambda>(t, r). (JString t, r)) (parse_string_body cs)
           else map_option (\<lambda>(i, r). (JNumber i, r)) (parse_int s)))"

fun parse_members :: "nat \<Rightarrow> string \<Rightarrow> (json_object \<times> string) option" where
  "parse_members 0 s = None"
| "parse_members (Suc fuel) s =
     (case skip_ws s of
        [] \<Rightarrow> None
      | q # r1 \<Rightarrow>
          (if q \<noteq> CHR 0x22 then None
           else
             (case parse_string_body r1 of
                None \<Rightarrow> None
              | Some (k, r2) \<Rightarrow>
                  (case skip_ws r2 of
                     [] \<Rightarrow> None
                   | colon # r3 \<Rightarrow>
                       (if colon \<noteq> CHR '':'' then None
                        else
                          (case parse_value (skip_ws r3) of
                             None \<Rightarrow> None
                           | Some (v, r4) \<Rightarrow>
                               (case skip_ws r4 of
                                  [] \<Rightarrow> None
                                | sep # r5 \<Rightarrow>
                                    (if sep = CHR ''}'' then Some ([(k, v)], r5)
                                     else if sep = CHR '','' then
                                       map_option (\<lambda>(ms, r). ((k, v) # ms, r)) (parse_members fuel r5)
                                     else None))))))))"

definition parse :: "string \<Rightarrow> json_object option" where
  "parse s =
     (case skip_ws s of
        [] \<Rightarrow> None
      | b # r \<Rightarrow>
          (if b \<noteq> CHR ''{'' then None
           else
             (case skip_ws r of
                [] \<Rightarrow> None
              | c # r' \<Rightarrow>
                  (if c = CHR ''}'' then (if skip_ws r' = [] then Some [] else None)
                   else
                     (case parse_members (length r) r of
                        None \<Rightarrow> None
                      | Some (ms, rest) \<Rightarrow> if skip_ws rest = [] then Some ms else None)))))"

text \<open>
  Modelled from the spec: serializing a review message to the topic message format, and
  deserializing a topic message.
\<close>

definition serialize :: "review_message \<Rightarrow> string" where
  "serialize m = render (to_json m)"

definition deserialize :: "string \<Rightarrow> review_message option" where
  "deserialize s = (case parse s of None \<Rightarrow> None | Some obj \<Rightarrow> from_json obj)"

section \<open>The Review Producer\<close>

text \<open>
  Modelled from the spec: the Review Producer (section 4.1), whose script is not among
  the sources. Its state is the in-memory set of review ids already seen, the messages
  it has published to the topic (oldest first) and what it has logged. A fetch for one
  app either fails (a network or rate-limit error, section 7) or returns the app's
  newest reviews; the external review source is the parameter \<open>fetch\<close>.
\<close>

datatype fetch_error = NetworkError | RateLimitError

record producer_state =
  seen :: "string set"
  topic :: "string list"
  logged :: "(app \<times> fetch_error) list"

text \<open>
  Modelled from the spec: "skip reviews already seen (by \<^verbatim>\<open>review_id\<close>), serialize
  remaining reviews to the message format above, publish each to the topic".
\<close>

fun publish_new :: "producer_state \<Rightarrow> review_message list \<Rightarrow> producer_state" where
  "publish_new st [] = st"
| "publish_new st (r # rs) =
     (if review_id r \<in> seen st then publish_new st rs
      else publish_new
             (st\<lparr>seen := insert (review_id r) (seen st), topic := topic st @ [serialize r]\<rparr>) rs)"

text \<open>
  Modelled from the spec: one timer cycle, "fetch newest reviews for each configured
  app"; "a fetch failure for one app is logged and skipped; it does not abort the timer
  loop".
\<close>

fun fetch_and_publish ::
  "(app \<Rightarrow> fetch_error + review_message list) \<Rightarrow> producer_state \<Rightarrow> app list \<Rightarrow> producer_state" where
  "fetch_and_publish fetch st [] = st"
| "fetch_and_publish fetch st (a # apps) =
     (case fetch a of
        Inl e \<Rightarrow> fetch_and_publish fetch (st\<lparr>logged := logged st @ [(a, e)]\<rparr>) apps
      | Inr rs \<Rightarrow> fetch_and_publish fetch (publish_new st rs) apps)"

definition producer_cycle ::
  "(app \<Rightarrow> fetch_error + review_message list) \<Rightarrow> producer_state \<Rightarrow> producer_state" where
  "producer_cycle fetch st = fetch_and_publish fetch st configured_apps"

text \<open>
  Modelled from the spec: what one cycle publishes and what it fetches. The messages the
  cycle adds to the topic, and the reviews the review source returns in the cycle: those
  of every configured app whose fetch succeeds, in the order of the apps.
\<close>

definition published_in_cycle ::
  "(app \<Rightarrow> fetch_error + review_message list) \<Rightarrow> producer_state \<Rightarrow> string list" where
  "published_in_cycle fetch st = drop (length (topic st)) (topic (producer_cycle fetch st))"

definition fetched_from ::
  "(app \<Rightarrow> fetch_error + review_message list) \<Rightarrow> app list \<Rightarrow> review_message list" where
  "fetched_from fetch apps =
     concat (map (\<lambda>a. case fetch a of Inl e \<Rightarrow> [] | Inr rs \<Rightarrow> rs) apps)"

definition fetched_in_cycle ::
  "(app \<Rightarrow> fetch_error + review_message list) \<Rightarrow> review_message list" where
  "fetched_in_cycle fetch = fetched_from fetch configured_apps"

section \<open>The training-time preprocessing and the Stream Classifier\<close>


text \<open>
  Modelled from the spec: the Stream Classifier (section 4.2), whose script
  (\<^verbatim>\<open>spark_sentiment_consumer.py\<close>, named by the notebook) is not among the sources. What
  it holds once started: the weights of the weighting transform, the loaded model, and
  the "neutral/default feature vector" that stands for a null or empty text.
\<close>

record stream_classifier =
  weights :: "real list"
  loaded_model :: lrModel
  default_features :: "real list"

text \<open>
  Modelled from the spec: "Model loading happens once at startup; a missing or
  incompatible model artifact is a fatal startup error." The classifier loads the saved
  logistic regression model and the IDF model of the preprocessing. They are compatible
  when the model takes the feature vectors of the fixed length 10000 and has one class
  per sentiment label, and the weights and the default vector have that length.
\<close>

datatype startup_error = MissingModel | IncompatibleModel

definition load_classifier ::
  "transformer option \<Rightarrow> transformer option \<Rightarrow> real list \<Rightarrow> startup_error + stream_classifier" where
  "load_classifier idf_model artifact dflt =
     (case (idf_model, artifact) of
        (Some (IDFModel inputCol outputCol w), Some (LogisticRegressionModel featuresCol m)) \<Rightarrow>
          if numFeatures m = 10000 \<and> numClasses m = length sentiment_labels \<and>
             length w = 10000 \<and> length dflt = 10000
          then Inr \<lparr>weights = w, loaded_model = m, default_features = dflt\<rparr>
          else Inl IncompatibleModel
      | (Some a, Some b) \<Rightarrow> Inl IncompatibleModel
      | _ \<Rightarrow> Inl MissingModel)"

text \<open>
  Modelled from the spec: the "fixed preprocessing sequence (tokenize, remove
  stop-words, vectorize with a fixed-size hashed feature space, weighting transform)",
  made of the functions of the notebook's four feature stages.
\<close>

definition preprocess :: "sparkLib \<Rightarrow> real list \<Rightarrow> string \<Rightarrow> error + real list" where
  "preprocess lib w s =
     (let tokens = tokenize (lowerCaseRoot lib) s;
          kept = removeStopWords (lowerCaseDefault lib) (defaultStopWords lib) tokens;
          counts = hashingTF (hashFunc lib) 10000 kept
      in idfTransform w counts)"

text \<open>
  Modelled from the spec: "null/empty text is mapped to a neutral/default feature vector
  rather than dropped" (section 4.2), "malformed/empty text: substituted with a default
  feature vector rather than failing the batch" (section 7). A delivered record is a
  row with the fields of the message; its text is preprocessed when it is a string that
  is not empty.
\<close>

definition features_of :: "sparkLib \<Rightarrow> stream_classifier \<Rightarrow> row \<Rightarrow> error + real list" where
  "features_of lib c r =
     (case map_of r ''text'' of
        Some (StringV s) \<Rightarrow> if s = [] then Inr (default_features c) else preprocess lib (weights c) s
      | _ \<Rightarrow> Inr (default_features c))"

text \<open>
  Modelled from the spec: "invoke the loaded model's inference to produce
  \<^verbatim>\<open>predicted_label\<close> and \<^verbatim>\<open>probability\<close>". The inference is that of the logistic
  regression model, which refuses a vector of another size than it was trained with; the
  label is the sentiment label at the predicted class index, if there is one.
\<close>

definition infer :: "lrModel \<Rightarrow> real list \<Rightarrow> error + string \<times> real list" where
  "infer m x =
     (if length x \<noteq> numFeatures m then Inl (DimensionMismatch (numFeatures m) (length x))
      else
        (let k = argmax (margins m x)
         in if 0 \<le> k \<and> k < int (length sentiment_labels)
            then Inr (sentiment_labels ! nat k, softmax (margins m x))
            else Inl (IndexOutOfBounds k)))"

text \<open>
  Modelled from the spec: the classified record, "one per input review", which
  "inherits all Review message fields" and has a \<^verbatim>\<open>predicted_label\<close> and a
  \<^verbatim>\<open>probability\<close> (section 3).
\<close>

definition classify_record :: "sparkLib \<Rightarrow> stream_classifier \<Rightarrow> row \<Rightarrow> error + row" where
  "classify_record lib c r =
     andThen (features_of lib c r) (\<lambda>x.
     andThen (infer (loaded_model c) x) (\<lambda>(label, p).
       Inr (r @ [(''predicted_label'', StringV label), (''probability'', VectorV p)])))"

text \<open>
  Modelled from the spec: a micro-batch is classified record by record and written to
  the sink "atomically per batch": all its records, or none when a record fails.
\<close>

definition classify_batch :: "sparkLib \<Rightarrow> stream_classifier \<Rightarrow> dataframe \<Rightarrow> error + dataframe" where
  "classify_batch lib c batch = traverse (classify_record lib c) batch"

definition write_batch ::
  "sparkLib \<Rightarrow> stream_classifier \<Rightarrow> dataframe \<Rightarrow> dataframe \<Rightarrow> error + dataframe" where
  "write_batch lib c sink batch =
     andThen (classify_batch lib c batch) (\<lambda>records. Inr (sink @ records))"

section \<open>Derived notions\<close>

text \<open>
  The notions below are not in the notebook: they name what the theorems talk about.
  A row can be given to the pipeline when it has a string in \<^verbatim>\<open>text\<close> and none of the
  columns the stages append; a training row has moreover a class index in \<^verbatim>\<open>label\<close>.
\<close>

fun pipelineRow :: "transformer list \<Rightarrow> row \<Rightarrow> error + row" where
  "pipelineRow [] r = Inr r"
| "pipelineRow (t # ts) r = andThen (transformRow t r) (pipelineRow ts)"

definition outputCols :: "string list" where
  "outputCols = [''words'', ''filtered_words'', ''raw_features'', ''features'',
                 ''rawPrediction'', ''probability'', ''prediction'']"

definition freshRow :: "row \<Rightarrow> bool" where
  "freshRow r = (set (map fst r) \<inter> set outputCols = {})"

definition textRow :: "row \<Rightarrow> bool" where
  "textRow r = (case map_of r ''text'' of Some (StringV s) \<Rightarrow> freshRow r | _ \<Rightarrow> False)"

definition trainingRow :: "row \<Rightarrow> bool" where
  "trainingRow r =
     (textRow r \<and> (case labelOf ''label'' r of Inr y \<Rightarrow> validLabel y | Inl e \<Rightarrow> False))"

definition textOf :: "row \<Rightarrow> string" where
  "textOf r = (case map_of r ''text'' of Some (StringV s) \<Rightarrow> s | _ \<Rightarrow> [])"


text \<open>The number of classes of a labelled DataFrame: its largest label plus one.\<close>

definition labelClasses :: "dataframe \<Rightarrow> nat" where
  "labelClasses df =
     (case traverse (labelOf ''label'') df of
        Inr ys \<Rightarrow> Suc (nat \<lfloor>fold max ys 0\<rfloor>)
      | Inl e \<Rightarrow> 0)"

text \<open>The vectors the feature stages compute from a text, and from a training set.\<close>

definition termVector :: "sparkLib \<Rightarrow> string \<Rightarrow> real list" where
  "termVector lib s =
     hashingTF (hashFunc lib) 10000
       (removeStopWords (lowerCaseDefault lib) (defaultStopWords lib) (tokenize (lowerCaseRoot lib) s))"

definition scaled :: "real list \<Rightarrow> real list \<Rightarrow> real list" where
  "scaled w v = map (\<lambda>j. v ! j * w ! j) [0..<length v]"

definition fittedIdf :: "sparkLib \<Rightarrow> dataframe \<Rightarrow> real list" where
  "fittedIdf lib df =
     map (\<lambda>j. ln ((real (length df) + 1) /
                 (real (documentFrequency (map (\<lambda>r. termVector lib (textOf r)) df) j) + 1)))
       [0..<10000]"

definition featureVector :: "sparkLib \<Rightarrow> real list \<Rightarrow> string \<Rightarrow> real list" where
  "featureVector lib w s = scaled w (termVector lib s)"

text \<open>The rows after each stage.\<close>

definition tokenized :: "sparkLib \<Rightarrow> row \<Rightarrow> row" where
  "tokenized lib r = r @ [(''words'', ArrayV (tokenize (lowerCaseRoot lib) (textOf r)))]"

definition filtered :: "sparkLib \<Rightarrow> row \<Rightarrow> row" where
  "filtered lib r =
     tokenized lib r @
     [(''filtered_words'',
       ArrayV (removeStopWords (lowerCaseDefault lib) (defaultStopWords lib)
                 (tokenize (lowerCaseRoot lib) (textOf r))))]"

definition hashed :: "sparkLib \<Rightarrow> row \<Rightarrow> row" where
  "hashed lib r = filtered lib r @ [(''raw_features'', VectorV (termVector lib (textOf r)))]"

definition weighted :: "sparkLib \<Rightarrow> real list \<Rightarrow> row \<Rightarrow> row" where
  "weighted lib w r = hashed lib r @ [(''features'', VectorV (featureVector lib w (textOf r)))]"

definition predicted :: "sparkLib \<Rightarrow> real list \<Rightarrow> lrModel \<Rightarrow> row \<Rightarrow> row" where
  "predicted lib w m r =
     weighted lib w r @
     [(''rawPrediction'', VectorV (margins m (featureVector lib w (textOf r)))),
      (''probability'', VectorV (softmax (margins m (featureVector lib w (textOf r))))),
      (''prediction'', DoubleV (real_of_int (argmax (margins m (featureVector lib w (textOf r))))))]"

text \<open>
  The logistic regression model that \<^verbatim>\<open>Pipeline.fit\<close> trains: fitted on the training
  rows as the four feature stages have transformed them.
\<close>

definition trainedOn :: "sparkLib \<Rightarrow> dataframe \<Rightarrow> error + lrModel" where
  "trainedOn lib df =
     fitLogisticRegression lib ''features'' ''label'' 10 0.3 0.8
       (map (weighted lib (fittedIdf lib df)) df)"

section \<open>Example inputs\<close>

text \<open>
  A library instance and a training set for the closed examples: a lower-casing of the
  ASCII capital letters (what Java's gives on ASCII text), three stop words, the length of
  a term as its hash, an optimiser that returns zero coefficients and the intercepts 0, 0
  and 1; three labelled reviews.
\<close>

definition exampleLowerCase :: "string \<Rightarrow> string" where
  "exampleLowerCase s =
     map (\<lambda>c. let n = (of_char c :: nat) in if 65 \<le> n \<and> n \<le> 90 then char_of (n + 32) else c) s"

definition exampleLib :: sparkLib where
  "exampleLib =
     \<lparr>lowerCaseRoot = exampleLowerCase,
      lowerCaseDefault = exampleLowerCase,
      defaultStopWords = [''the'', ''a'', ''is''],
      hashFunc = (\<lambda>s. int (length s)),
      optimize = (\<lambda>maxIter regParam elasticNetParam k n xys.
                    (\<lambda>c j. 0, \<lambda>c. if c = 2 then 1 else 0))\<rparr>"

definition exampleTraining :: dataframe where
  "exampleTraining =
     [[(''review_id'', StringV ''r1''), (''text'', StringV ''Good app''),
       (''original_score'', LongV 5), (''label'', DoubleV 2)],
      [(''review_id'', StringV ''r2''), (''text'', StringV ''it is ok''),
       (''original_score'', LongV 3), (''label'', DoubleV 1)],
      [(''review_id'', StringV ''r3''), (''text'', StringV ''bad app''),
       (''original_score'', LongV 1), (''label'', DoubleV 0)]]"

text \<open>
  Three review records as they arrive (the second with the text of the first and other
  fields, the third with another text), and the training set as the feature stages have
  encoded it (the cleaned data that \<^verbatim>\<open>lr.fit\<close> is given).
\<close>

definition exampleReview :: row where
  "exampleReview =
     [(''review_id'', StringV ''r7''), (''app_id'', StringV ''com.grabtaxi.passenger''),
      (''text'', StringV ''Good app''), (''original_score'', LongV 5),
      (''timestamp'', StringV ''2025-06-01T10:00:00'')]"

definition exampleRepeat :: row where
  "exampleRepeat =
     [(''review_id'', StringV ''r10''), (''app_id'', StringV ''com.setel.mobile''),
      (''text'', StringV ''Good app''), (''original_score'', LongV 4),
      (''timestamp'', StringV ''2025-06-02T08:30:00'')]"

definition exampleOther :: row where
  "exampleOther =
     [(''review_id'', StringV ''r9''), (''app_id'', StringV ''my.com.myboost''),
      (''text'', StringV ''bad app''), (''original_score'', LongV 1),
      (''timestamp'', StringV ''2025-06-02T08:00:00'')]"

text \<open>
  A delivered record whose text is null, one whose text is empty, one whose text has
  capital letters and a stop word, and a default feature vector: the vector of a text
  with no terms.
\<close>

definition exampleNullReview :: row where
  "exampleNullReview =
     [(''review_id'', StringV ''r11''), (''app_id'', StringV ''com.setel.mobile''),
      (''text'', Null), (''original_score'', LongV 1),
      (''timestamp'', StringV ''2025-06-01T10:02:00'')]"

definition exampleEmptyReview :: row where
  "exampleEmptyReview =
     [(''review_id'', StringV ''r12''), (''app_id'', StringV ''my.com.myboost''),
      (''text'', StringV ''''), (''original_score'', LongV 3),
      (''timestamp'', StringV ''2025-06-01T10:01:00'')]"


definition exampleDefault :: "real list" where
  "exampleDefault = replicate 10000 0"

definition exampleCleaned :: dataframe where
  "exampleCleaned =
     map (weighted exampleLib (fittedIdf exampleLib exampleTraining)) exampleTraining"

text \<open>
  Two messages, a review source for one cycle in which the fetch for the first configured
  app fails while the other four are fetched (Boost and ShopeePay have one new review
  each), and a producer that has seen and published nothing yet.
\<close>

definition exampleMessage :: review_message where
  "exampleMessage =
     \<lparr>review_id = ''r7'', app_id = Boost, text' = ''Good app'', original_score = 5,
      timestamp = ''2025-06-01T10:00:00''\<rparr>"

definition exampleMessage2 :: review_message where
  "exampleMessage2 =
     \<lparr>review_id = ''r8'', app_id = ShopeePay, text' = ''slow'', original_score = 2,
      timestamp = ''2025-06-01T10:05:00''\<rparr>"

definition exampleFetch :: "app \<Rightarrow> fetch_error + review_message list" where
  "exampleFetch a =
     (if a = TouchNGo then Inl NetworkError
      else if a = Boost then Inr [exampleMessage]
      else if a = ShopeePay then Inr [exampleMessage2]
      else Inr [])"

definition initial_state :: producer_state where
  "initial_state = \<lparr>seen = {}, topic = [], logged = []\<rparr>"

section \<open>Results, traversals and columns\<close>

subsection \<open>Results and traversals\<close>

lemma andThen_Inr_iff: "andThen x f = Inr z \<longleftrightarrow> (\<exists>y. x = Inr y \<and> f y = Inr z)"
  by (cases x) (simp_all add: andThen_def)

lemma andThen_Inr [simp]: "andThen (Inr y) f = f y"
  by (simp add: andThen_def)

lemma andThen_Inl [simp]: "andThen (Inl e) f = Inl e"
  by (simp add: andThen_def)

lemma traverse_Inr_iff: "traverse f xs = Inr ys \<longleftrightarrow> list_all2 (\<lambda>x y. f x = Inr y) xs ys"
proof (induction xs arbitrary: ys)
  case Nil
  then show ?case by auto
next
  case (Cons x xs)
  show ?case
    by (cases ys) (auto simp: Cons.IH[symmetric] split: sum.splits)
qed

lemma traverse_set:
  "traverse f xs = Inr ys \<Longrightarrow> y \<in> set ys \<Longrightarrow> \<exists>x \<in> set xs. f x = Inr y"
  unfolding traverse_Inr_iff
  by (induction xs ys rule: list_all2_induct) auto

lemma traverse_map_map:
  "list_all (\<lambda>x. f (g x) = Inr (h x)) xs \<Longrightarrow> traverse f (map g xs) = Inr (map h xs)"
  by (induction xs) simp_all

lemma traverse_total:
  assumes "\<And>x. \<exists>y. f x = Inr y \<and> P x y"
  shows "\<exists>ys. traverse f xs = Inr ys \<and> list_all2 P xs ys"
proof (induction xs)
  case Nil
  then show ?case by simp
next
  case (Cons x xs)
  obtain y where y: "f x = Inr y" "P x y" using assms by blast
  obtain ys where ys: "traverse f xs = Inr ys" "list_all2 P xs ys" using Cons.IH by blast
  show ?case
    by (rule exI[of _ "y # ys"]) (simp add: y ys)
qed

lemma list_all_mono: "list_all P xs \<Longrightarrow> (\<And>x. P x \<Longrightarrow> Q x) \<Longrightarrow> list_all Q xs"
  by (induction xs) simp_all


subsection \<open>Columns\<close>

lemma getCol_append:
  "getCol (r @ [(c, v)]) c' =
     (case map_of r c' of Some x \<Rightarrow> Inr x
      | None \<Rightarrow> if c' = c then Inr v else Inl (ColumnNotFound c'))"
  by (simp add: getCol_def map_add_def split: option.splits)

lemma appendColumn_Inr_iff:
  "appendColumn r c v = Inr r' \<longleftrightarrow> map_of r c = None \<and> r' = r @ [(c, v)]"
  by (auto simp: appendColumn_def map_of_eq_None_iff)

lemma freshRow_None: "freshRow r \<Longrightarrow> c \<in> set outputCols \<Longrightarrow> map_of r c = None"
  by (auto simp: freshRow_def map_of_eq_None_iff)

lemma textRow_text: "textRow r \<Longrightarrow> map_of r ''text'' = Some (StringV (textOf r))"
  by (auto simp: textRow_def textOf_def split: option.splits cell.splits)

lemma textRow_fresh: "textRow r \<Longrightarrow> freshRow r"
  by (auto simp: textRow_def split: option.splits cell.splits)

lemma textRow_None:
  assumes "textRow r"
  shows "map_of r ''words'' = None" "map_of r ''filtered_words'' = None"
    "map_of r ''raw_features'' = None" "map_of r ''features'' = None"
    "map_of r ''rawPrediction'' = None" "map_of r ''probability'' = None"
    "map_of r ''prediction'' = None"
  using textRow_fresh[OF assms] by (simp_all add: freshRow_None outputCols_def)

lemma textRow_notin:
  assumes "textRow r"
  shows "''words'' \<notin> fst ` set r" "''filtered_words'' \<notin> fst ` set r"
    "''raw_features'' \<notin> fst ` set r" "''features'' \<notin> fst ` set r"
    "''rawPrediction'' \<notin> fst ` set r" "''probability'' \<notin> fst ` set r"
    "''prediction'' \<notin> fst ` set r"
  using textRow_fresh[OF assms] by (auto simp: freshRow_def outputCols_def)

lemma textRow_single: "textRow [(''text'', StringV s)]"
  by (simp add: textRow_def freshRow_def outputCols_def)

lemma textOf_single: "textOf [(''text'', StringV s)] = s"
  by (simp add: textOf_def)

lemma textRow_textOf:
  assumes "textRow r1" and "textRow r2" and "map_of r1 ''text'' = map_of r2 ''text''"
  shows "textOf r1 = textOf r2"
  using assms(3) by (simp add: textOf_def)

section \<open>The feature stages\<close>

subsection \<open>What each stage computes\<close>







lemma length_termFrequencies: "length (termFrequencies h n ts tf) = length tf"
  by (induction ts arbitrary: tf) simp_all

lemma length_hashingTF: "length (hashingTF h n ts) = n"
  by (simp add: hashingTF_def length_termFrequencies)



lemma length_scaled: "length (scaled w v) = length v"
  by (simp add: scaled_def)


lemma idfTransform_scaled: "length v \<le> length w \<Longrightarrow> idfTransform w v = Inr (scaled w v)"
  by (simp add: idfTransform_def scaled_def)

lemma length_termVector: "length (termVector lib s) = 10000"
  by (simp add: termVector_def length_hashingTF)

lemma length_featureVector: "length (featureVector lib w s) = 10000"
  by (simp add: featureVector_def length_scaled length_termVector)

lemma length_fittedIdf: "length (fittedIdf lib df) = 10000"
  by (simp add: fittedIdf_def)

subsection \<open>The stages on a text row\<close>

lemmas stage_simps =
  getCol_def appendColumn_def map_add_def tokenized_def filtered_def hashed_def weighted_def
  predicted_def

lemma tokenizer_row: "textRow r \<Longrightarrow> transformRow (tokenizer lib) r = Inr (tokenized lib r)"
  using textRow_text[of r] textRow_notin(1)[of r]
  by (simp add: tokenizer_def stage_simps)

lemma remover_row: "textRow r \<Longrightarrow> transformRow (remover lib) (tokenized lib r) = Inr (filtered lib r)"
  using textRow_None(1,2)[of r] textRow_notin(1,2)[of r]
  by (simp add: remover_def stage_simps)

lemma hashing_tf_row:
  "textRow r \<Longrightarrow> transformRow (hashing_tf lib) (filtered lib r) = Inr (hashed lib r)"
  using textRow_None(1,2,3)[of r] textRow_notin(1,2,3)[of r]
  by (simp add: hashing_tf_def stage_simps termVector_def)

lemma IDFModel_text_row:
  assumes "textRow r" and "10000 \<le> length w"
  shows "transformRow (IDFModel ''raw_features'' ''features'' w) (hashed lib r) = Inr (weighted lib w r)"
proof -
  have l: "length (termVector lib (textOf r)) \<le> length w"
    using assms(2) by (simp add: length_termVector)
  show ?thesis
    using textRow_None(1,2,3,4)[OF assms(1)] textRow_notin(1,2,3,4)[OF assms(1)]
    by (simp add: stage_simps idfTransform_scaled[OF l] featureVector_def)
qed

lemma LogisticRegressionModel_text_row:
  assumes "textRow r" and "numFeatures m = 10000"
  shows "transformRow (LogisticRegressionModel ''features'' m) (weighted lib w r) = Inr (predicted lib w m r)"
  using textRow_None[OF assms(1)] textRow_notin[OF assms(1)] assms(2)
  by (simp add: stage_simps length_featureVector)

lemma weighted_columns:
  assumes "textRow r"
  shows "map_of (weighted lib w r) ''raw_features'' = Some (VectorV (termVector lib (textOf r)))"
    and "map_of (weighted lib w r) ''features'' = Some (VectorV (featureVector lib w (textOf r)))"
  using textRow_None[OF assms]
  by (simp_all add: stage_simps)

lemma predicted_columns:
  assumes "textRow r"
  shows "map_of (predicted lib w m r) ''raw_features'' = Some (VectorV (termVector lib (textOf r)))"
    and "map_of (predicted lib w m r) ''features'' = Some (VectorV (featureVector lib w (textOf r)))"
    and "map_of (predicted lib w m r) ''probability'' =
           Some (VectorV (softmax (margins m (featureVector lib w (textOf r)))))"
    and "map_of (predicted lib w m r) ''prediction'' =
           Some (DoubleV (real_of_int (argmax (margins m (featureVector lib w (textOf r))))))"
  using textRow_None[OF assms]
  by (simp_all add: stage_simps)

subsection \<open>The stages on a DataFrame of text rows\<close>

lemma transform_map:
  "list_all (\<lambda>r. transformRow t (f r) = Inr (g r)) df \<Longrightarrow> transform t (map f df) = Inr (map g df)"
  unfolding transform_def by (rule traverse_map_map)

lemma tokenizer_df: "list_all textRow df \<Longrightarrow> transform (tokenizer lib) df = Inr (map (tokenized lib) df)"
  using transform_map[of "tokenizer lib" "\<lambda>r. r" "tokenized lib" df]
  by (simp add: list_all_mono[of textRow df] tokenizer_row)

lemma remover_df:
  "list_all textRow df \<Longrightarrow> transform (remover lib) (map (tokenized lib) df) = Inr (map (filtered lib) df)"
  by (rule transform_map) (simp add: list_all_mono[of textRow df] remover_row)

lemma hashing_tf_df:
  "list_all textRow df \<Longrightarrow>
   transform (hashing_tf lib) (map (filtered lib) df) = Inr (map (hashed lib) df)"
  by (rule transform_map) (simp add: list_all_mono[of textRow df] hashing_tf_row)

lemma IDFModel_df:
  assumes a: "list_all textRow df" and b: "10000 \<le> length w"
  shows "transform (IDFModel ''raw_features'' ''features'' w) (map (hashed lib) df) =
     Inr (map (weighted lib w) df)"
  by (rule transform_map) (rule list_all_mono[OF a], rule IDFModel_text_row[OF _ b], assumption)

lemma LogisticRegressionModel_df:
  assumes a: "list_all textRow df" and b: "numFeatures m = 10000"
  shows "transform (LogisticRegressionModel ''features'' m) (map (weighted lib w) df) =
     Inr (map (predicted lib w m) df)"
  by (rule transform_map)
    (rule list_all_mono[OF a], rule LogisticRegressionModel_text_row[OF _ b], assumption)

lemma feature_stages_df:
  assumes a: "list_all textRow df" and w: "10000 \<le> length w"
  shows "pipelineModelTransform
       [tokenizer lib, remover lib, hashing_tf lib, IDFModel ''raw_features'' ''features'' w] df =
     Inr (map (weighted lib w) df)"
  by (simp add: tokenizer_df[OF a] remover_df[OF a] hashing_tf_df[OF a] IDFModel_df[OF a w])

lemma fitted_pipeline_df:
  assumes a: "list_all textRow df" and w: "10000 \<le> length w" and m: "numFeatures m = 10000"
  shows "pipelineModelTransform
       [tokenizer lib, remover lib, hashing_tf lib, IDFModel ''raw_features'' ''features'' w,
        LogisticRegressionModel ''features'' m] df =
     Inr (map (predicted lib w m) df)"
  by (simp add: tokenizer_df[OF a] remover_df[OF a] hashing_tf_df[OF a] IDFModel_df[OF a w]
      LogisticRegressionModel_df[OF a m])

subsection \<open>What a stage that succeeds has read and appended\<close>

lemma vectorOf_append_fresh:
  "map_of r c = None \<Longrightarrow> vectorOf c (r @ [(c, VectorV v)]) = Inr v"
  by (simp add: vectorOf_def getCol_append)

lemma Tokenizer_appends:
  assumes "transformRow (Tokenizer i c lo) r = Inr r'"
  shows "\<exists>v. map_of r c = None \<and> r' = r @ [(c, v)]"
proof -
  from assms obtain x where "(case x of StringV s \<Rightarrow> appendColumn r c (ArrayV (tokenize lo s))
      | Null \<Rightarrow> Inl (NullPointer i) | _ \<Rightarrow> Inl (TypeMismatch i)) = Inr r'"
    by (auto simp: andThen_Inr_iff)
  then show ?thesis
    by (cases x) (auto simp: appendColumn_Inr_iff)
qed

lemma Tokenizer_text:
  assumes "transformRow (Tokenizer i c lo) r = Inr r'"
  shows "\<exists>s. map_of r i = Some (StringV s)"
proof -
  from assms obtain x where x: "getCol r i = Inr x" and
    c: "(case x of StringV s \<Rightarrow> appendColumn r c (ArrayV (tokenize lo s))
      | Null \<Rightarrow> Inl (NullPointer i) | _ \<Rightarrow> Inl (TypeMismatch i)) = Inr r'"
    by (auto simp: andThen_Inr_iff)
  from c obtain s where "x = StringV s" by (cases x) auto
  then show ?thesis using x by (auto simp: getCol_def split: option.splits)
qed


lemma StopWordsRemover_appends:
  assumes "transformRow (StopWordsRemover i c sw lo) r = Inr r'"
  shows "\<exists>v. map_of r c = None \<and> r' = r @ [(c, v)]"
proof -
  from assms obtain x where "(case x of
        ArrayV ws \<Rightarrow> appendColumn r c (ArrayV (removeStopWords lo sw ws))
      | Null \<Rightarrow> Inl (NullPointer i) | _ \<Rightarrow> Inl (TypeMismatch i)) = Inr r'"
    by (auto simp: andThen_Inr_iff)
  then show ?thesis
    by (cases x) (auto simp: appendColumn_Inr_iff)
qed


lemma HashingTF_appends:
  assumes "transformRow (HashingTF i c n h) r = Inr r'"
  shows "\<exists>ws. map_of r c = None \<and> r' = r @ [(c, VectorV (hashingTF h n ws))]"
proof -
  from assms obtain x where "(case x of
        ArrayV ws \<Rightarrow> appendColumn r c (VectorV (hashingTF h n ws))
      | Null \<Rightarrow> Inl (NullPointer i) | _ \<Rightarrow> Inl (TypeMismatch i)) = Inr r'"
    by (auto simp: andThen_Inr_iff)
  then show ?thesis
    by (cases x) (auto simp: appendColumn_Inr_iff)
qed


lemma HashingTF_column:
  assumes "transform (HashingTF i c n h) df = Inr df'" and "r' \<in> set df'"
  shows "\<exists>v. vectorOf c r' = Inr v \<and> length v = n"
proof -
  obtain r where "transformRow (HashingTF i c n h) r = Inr r'"
    using traverse_set[OF assms(1)[unfolded transform_def] assms(2)] by blast
  then obtain ws where "map_of r c = None" "r' = r @ [(c, VectorV (hashingTF h n ws))]"
    using HashingTF_appends by blast
  then show ?thesis
    by (simp add: vectorOf_append_fresh length_hashingTF)
qed

lemma IDFModel_appends:
  assumes "transformRow (IDFModel i c w) r = Inr r'"
  shows "\<exists>x. vectorOf i r = Inr x \<and> length x \<le> length w \<and> map_of r c = None \<and>
             r' = r @ [(c, VectorV (scaled w x))]"
proof -
  from assms obtain v where v: "getCol r i = Inr v"
    and a: "(case v of
               VectorV x \<Rightarrow> andThen (idfTransform w x) (\<lambda>y. appendColumn r c (VectorV y))
             | Null \<Rightarrow> Inl (NullPointer i) | _ \<Rightarrow> Inl (TypeMismatch i)) = Inr r'"
    by (auto simp: andThen_Inr_iff)
  from a obtain x where x: "v = VectorV x"
    by (cases v) auto
  with a have "length x \<le> length w" "appendColumn r c (VectorV (scaled w x)) = Inr r'"
    by (auto simp: andThen_Inr_iff idfTransform_def scaled_def split: if_splits)
  then show ?thesis
    using v x by (auto simp: appendColumn_Inr_iff vectorOf_def)
qed


lemma IDFModel_column:
  assumes tr: "transform (IDFModel i c w) df = Inr df'" and r': "r' \<in> set df'"
    and col: "\<forall>r \<in> set df. \<exists>v. vectorOf i r = Inr v \<and> length v = n"
  shows "\<exists>v. vectorOf c r' = Inr v \<and> length v = n"
proof -
  obtain r where r: "r \<in> set df" "transformRow (IDFModel i c w) r = Inr r'"
    using traverse_set[OF tr[unfolded transform_def] r'] by blast
  then obtain x where x: "vectorOf i r = Inr x" "map_of r c = None"
    "r' = r @ [(c, VectorV (scaled w x))]"
    using IDFModel_appends by blast
  have "length x = n" using col r(1) x(1) by fastforce
  then show ?thesis using x by (simp add: vectorOf_append_fresh length_scaled)
qed

lemma LogisticRegressionModel_appends:
  assumes "transformRow (LogisticRegressionModel f m) r = Inr r'"
  shows "map_of r ''rawPrediction'' = None \<and> map_of r ''probability'' = None \<and>
         map_of r ''prediction'' = None \<and> (\<exists>cols. r' = r @ cols)"
proof -
  from assms obtain v where v: "getCol r f = Inr v"
    and a: "(case v of
         VectorV x \<Rightarrow>
           if length x \<noteq> numFeatures m then Inl (DimensionMismatch (numFeatures m) (length x))
           else
             andThen (appendColumn r ''rawPrediction'' (VectorV (margins m x))) (\<lambda>r1.
             andThen (appendColumn r1 ''probability'' (VectorV (softmax (margins m x)))) (\<lambda>r2.
             appendColumn r2 ''prediction'' (DoubleV (real_of_int (argmax (margins m x))))))
       | Null \<Rightarrow> Inl (NullPointer f)
       | _ \<Rightarrow> Inl (TypeMismatch f)) = Inr r'"
    by (auto simp: andThen_Inr_iff)
  from a obtain x where x: "v = VectorV x" by (cases v) auto
  from a x obtain r1 r2 where
    r1: "appendColumn r ''rawPrediction'' (VectorV (margins m x)) = Inr r1" and
    r2: "appendColumn r1 ''probability'' (VectorV (softmax (margins m x))) = Inr r2" and
    r3: "appendColumn r2 ''prediction'' (DoubleV (real_of_int (argmax (margins m x)))) = Inr r'"
    by (auto simp: andThen_Inr_iff split: if_splits)
  from r1 r2 r3 show ?thesis
    by (auto simp: appendColumn_Inr_iff map_add_def split: option.splits)
qed

lemma LogisticRegressionModel_result:
  assumes "transformRow (LogisticRegressionModel f m) r = Inr r'"
  shows "\<exists>x. map_of r f = Some (VectorV x) \<and> length x = numFeatures m \<and>
           map_of r ''rawPrediction'' = None \<and> map_of r ''probability'' = None \<and>
           map_of r ''prediction'' = None \<and>
           r' = r @ [(''rawPrediction'', VectorV (margins m x)),
                     (''probability'', VectorV (softmax (margins m x))),
                     (''prediction'', DoubleV (real_of_int (argmax (margins m x))))]"
proof -
  from assms obtain v where v: "getCol r f = Inr v"
    and a: "(case v of
         VectorV x \<Rightarrow>
           if length x \<noteq> numFeatures m then Inl (DimensionMismatch (numFeatures m) (length x))
           else
             andThen (appendColumn r ''rawPrediction'' (VectorV (margins m x))) (\<lambda>r1.
             andThen (appendColumn r1 ''probability'' (VectorV (softmax (margins m x)))) (\<lambda>r2.
             appendColumn r2 ''prediction'' (DoubleV (real_of_int (argmax (margins m x))))))
       | Null \<Rightarrow> Inl (NullPointer f)
       | _ \<Rightarrow> Inl (TypeMismatch f)) = Inr r'"
    by (auto simp: andThen_Inr_iff)
  from a obtain x where x: "v = VectorV x" by (cases v) auto
  from a x have len: "length x = numFeatures m" by (auto split: if_splits)
  from a x obtain r1 r2 where
    r1: "appendColumn r ''rawPrediction'' (VectorV (margins m x)) = Inr r1" and
    r2: "appendColumn r1 ''probability'' (VectorV (softmax (margins m x))) = Inr r2" and
    r3: "appendColumn r2 ''prediction'' (DoubleV (real_of_int (argmax (margins m x)))) = Inr r'"
    by (auto simp: andThen_Inr_iff split: if_splits)
  have c: "map_of r f = Some (VectorV x)"
    using v x by (auto simp: getCol_def split: option.splits)
  from r1 r2 r3 have "map_of r ''rawPrediction'' = None \<and> map_of r ''probability'' = None \<and>
      map_of r ''prediction'' = None \<and>
      r' = r @ [(''rawPrediction'', VectorV (margins m x)),
                (''probability'', VectorV (softmax (margins m x))),
                (''prediction'', DoubleV (real_of_int (argmax (margins m x))))]"
    by (auto simp: appendColumn_Inr_iff map_add_def split: option.splits)
  then show ?thesis using c len by blast
qed

lemma LogisticRegressionModel_row:
  assumes x: "map_of r f = Some (VectorV x)" "length x = numFeatures m"
    and fresh: "map_of r ''rawPrediction'' = None" "map_of r ''probability'' = None"
      "map_of r ''prediction'' = None"
  shows "transformRow (LogisticRegressionModel f m) r =
     Inr (r @ [(''rawPrediction'', VectorV (margins m x)),
               (''probability'', VectorV (softmax (margins m x))),
               (''prediction'', DoubleV (real_of_int (argmax (margins m x))))])"
proof -
  have n: "''rawPrediction'' \<notin> fst ` set r" "''probability'' \<notin> fst ` set r"
    "''prediction'' \<notin> fst ` set r"
    using fresh by (simp_all add: map_of_eq_None_iff)
  show ?thesis
    using x n by (simp add: getCol_def appendColumn_def)
qed

lemma LogisticRegressionModel_no_features:
  "map_of r f = None \<Longrightarrow> transformRow (LogisticRegressionModel f m) r = Inl (ColumnNotFound f)"
  by (simp add: getCol_def)


section \<open>Softmax and argmax\<close>

lemma length_softmax: "length (softmax zs) = length zs"
  by (cases zs) (simp_all add: softmax_def Let_def)

lemma sum_list_divide: "sum_list (map (\<lambda>e. e / (c::real)) es) = sum_list es / c"
  by (induction es) (simp_all add: add_divide_distrib)

lemma sum_list_exp_pos: "zs \<noteq> [] \<Longrightarrow> 0 < sum_list (map (\<lambda>y. exp (y - (c::real))) zs)"
proof (induction zs)
  case Nil
  then show ?case by simp
next
  case (Cons z zs)
  have "0 \<le> sum_list (map (\<lambda>y. exp (y - c)) zs)"
    by (rule sum_list_nonneg) auto
  moreover have "0 < exp (z - c)" by simp
  ultimately show ?case by (simp add: add_pos_nonneg)
qed

lemma member_le_sum_list_real:
  assumes "\<forall>x \<in> set xs. 0 \<le> (x::real)" and "x \<in> set xs"
  shows "x \<le> sum_list xs"
  using assms
proof (induction xs)
  case Nil
  then show ?case by simp
next
  case (Cons a xs)
  have n: "0 \<le> sum_list xs" using Cons.prems(1) by (intro sum_list_nonneg) simp
  show ?case
  proof (cases "x = a")
    case True
    then show ?thesis using n by simp
  next
    case False
    then have "x \<le> sum_list xs" using Cons by simp
    moreover have "0 \<le> a" using Cons.prems(1) by simp
    ultimately show ?thesis by simp
  qed
qed

lemma softmax_nonempty:
  assumes "zs \<noteq> []"
  shows "\<exists>c. softmax zs =
     map (\<lambda>e. e / sum_list (map (\<lambda>y. exp (y - c)) zs)) (map (\<lambda>y. exp (y - c)) zs)"
proof -
  obtain z rest where z: "zs = z # rest" using assms by (cases zs) auto
  have "softmax zs =
     map (\<lambda>e. e / sum_list (map (\<lambda>y. exp (y - fold max rest z)) zs))
       (map (\<lambda>y. exp (y - fold max rest z)) zs)"
    unfolding z softmax_def by (simp add: Let_def)
  then show ?thesis by blast
qed

lemma sum_list_softmax:
  assumes "zs \<noteq> []"
  shows "sum_list (softmax zs) = 1"
proof -
  obtain c where c: "softmax zs =
     map (\<lambda>e. e / sum_list (map (\<lambda>y. exp (y - c)) zs)) (map (\<lambda>y. exp (y - c)) zs)"
    using softmax_nonempty[OF assms] by blast
  have "0 < sum_list (map (\<lambda>y. exp (y - c)) zs)"
    using assms by (rule sum_list_exp_pos)
  then show ?thesis
    unfolding c sum_list_divide by simp
qed

lemma softmax_range:
  assumes "q \<in> set (softmax zs)"
  shows "0 \<le> q \<and> q \<le> 1"
proof -
  have ne: "zs \<noteq> []" using assms by (auto simp: softmax_def)
  obtain c where c: "softmax zs =
     map (\<lambda>e. e / sum_list (map (\<lambda>y. exp (y - c)) zs)) (map (\<lambda>y. exp (y - c)) zs)"
    using softmax_nonempty[OF ne] by blast
  let ?es = "map (\<lambda>y. exp (y - c)) zs"
  have pos: "0 < sum_list ?es" using ne by (rule sum_list_exp_pos)
  from assms obtain e where e: "e \<in> set ?es" "q = e / sum_list ?es"
    unfolding c by auto
  have "0 \<le> e" using e(1) by auto
  moreover have "e \<le> sum_list ?es"
    by (rule member_le_sum_list_real[OF _ e(1)]) auto
  ultimately show ?thesis using pos e(2) by simp
qed

lemma argmaxFrom_range:
  "argmaxFrom vs i maxIdx maxValue = maxIdx \<or>
   (i \<le> argmaxFrom vs i maxIdx maxValue \<and> argmaxFrom vs i maxIdx maxValue < i + length vs)"
proof (induction vs arbitrary: i maxIdx maxValue)
  case Nil
  then show ?case by simp
next
  case (Cons v vs)
  show ?case
  proof (cases "v > maxValue")
    case True
    then show ?thesis using Cons.IH[of "Suc i" i v] by auto
  next
    case False
    then show ?thesis using Cons.IH[of "Suc i" maxIdx maxValue] by auto
  qed
qed

lemma argmax_range: "vs \<noteq> [] \<Longrightarrow> 0 \<le> argmax vs \<and> argmax vs < int (length vs)"
proof -
  assume "vs \<noteq> []"
  then obtain v rest where v: "vs = v # rest" by (cases vs) auto
  show ?thesis
    using argmaxFrom_range[of rest 1 0 v] by (auto simp: argmax_def v)
qed

lemma length_margins: "length (margins m x) = numClasses m"
  by (simp add: margins_def)

lemma margins_argmax:
  assumes "0 < numClasses m"
  shows "0 \<le> argmax (margins m x) \<and> argmax (margins m x) < int (numClasses m)"
proof -
  have "margins m x \<noteq> []" using assms length_margins[of m x] by auto
  then show ?thesis using argmax_range[of "margins m x"] by (simp add: length_margins)
qed

lemma sentiment_label_cases:
  assumes "0 \<le> k" and "k < 3"
  shows "sentiment_labels ! nat k \<in> {''negative'', ''neutral'', ''positive''}"
proof -
  have "nat k = 0 \<or> nat k = 1 \<or> nat k = 2" using assms by auto
  then show ?thesis by (auto simp: sentiment_labels_def)
qed




section \<open>Fitting\<close>

subsection \<open>Fitting on text rows\<close>

lemma vectorOf_hashed:
  "textRow r \<Longrightarrow> vectorOf ''raw_features'' (hashed lib r) = Inr (termVector lib (textOf r))"
  using textRow_None(1,2,3)[of r]
  by (simp add: vectorOf_def stage_simps)

lemma vectorOf_weighted:
  "textRow r \<Longrightarrow> vectorOf ''features'' (weighted lib w r) = Inr (featureVector lib w (textOf r))"
  using textRow_None(1,2,3,4)[of r]
  by (simp add: vectorOf_def stage_simps)

lemma idfWeights_same_length:
  assumes "docs \<noteq> []" and "list_all (\<lambda>d. length d = n) docs"
  shows "idfWeights docs =
     Inr (map (\<lambda>j. ln ((real (length docs) + 1) / (real (documentFrequency docs j) + 1))) [0..<n])"
proof -
  obtain d ds where d: "docs = d # ds" using assms(1) by (cases docs) auto
  have "filter (\<lambda>v. length v \<noteq> length d) ds = []"
    using assms(2) d by (auto simp: filter_empty_conv list_all_iff)
  then show ?thesis
    using assms(2) d by (simp add: idfWeights_def)
qed

lemma idf_fit_text_rows:
  assumes "df \<noteq> []" and "list_all textRow df"
  shows "estimatorFit lib idf (map (hashed lib) df) =
     Inr (IDFModel ''raw_features'' ''features'' (fittedIdf lib df))"
proof -
  have t: "traverse (vectorOf ''raw_features'') (map (hashed lib) df) =
      Inr (map (\<lambda>r. termVector lib (textOf r)) df)"
    by (rule traverse_map_map) (rule list_all_mono[OF assms(2)], rule vectorOf_hashed)
  have w: "idfWeights (map (\<lambda>r. termVector lib (textOf r)) df) = Inr (fittedIdf lib df)"
    using idfWeights_same_length[of "map (\<lambda>r. termVector lib (textOf r)) df" 10000] assms(1)
    by (simp add: fittedIdf_def list_all_iff length_termVector)
  show ?thesis
    by (simp add: idf_def t w)
qed

lemma labelOf_appended:
  "c \<noteq> ''label'' \<Longrightarrow> labelOf ''label'' (r @ [(c, v)]) = labelOf ''label'' r"
  by (simp add: labelOf_def getCol_def map_add_def split: option.splits)

lemma labelOf_weighted: "labelOf ''label'' (weighted lib w r) = labelOf ''label'' r"
  by (simp add: weighted_def hashed_def filtered_def tokenized_def labelOf_def getCol_def
      map_add_def split: option.splits)

lemma traverse_labelOf_weighted:
  "traverse (labelOf ''label'') (map (weighted lib w) df) = traverse (labelOf ''label'') df"
  by (induction df) (auto simp: labelOf_weighted split: sum.splits)

lemma trainingRow_textRow: "trainingRow r \<Longrightarrow> textRow r"
  by (simp add: trainingRow_def)

lemma trainingRow_label: "trainingRow r \<Longrightarrow> \<exists>y. labelOf ''label'' r = Inr y \<and> validLabel y"
  by (auto simp: trainingRow_def split: sum.splits)

lemma training_labels:
  assumes "list_all trainingRow df"
  shows "\<exists>ys. traverse (labelOf ''label'') df = Inr ys \<and> list_all validLabel ys"
  using assms
proof (induction df)
  case Nil
  then show ?case by simp
next
  case (Cons r df)
  then obtain ys where "traverse (labelOf ''label'') df = Inr ys" "list_all validLabel ys"
    by auto
  moreover obtain y where "labelOf ''label'' r = Inr y" "validLabel y"
    using Cons.prems trainingRow_label by auto
  ultimately show ?case by simp
qed

lemma fitLogisticRegression_ok:
  assumes xs: "traverse (vectorOf f) df = Inr xs" and ne: "xs \<noteq> []"
    and len: "list_all (\<lambda>x. length x = n) xs"
    and ys: "traverse (labelOf l) df = Inr ys" and valid: "list_all validLabel ys"
  shows "\<exists>m. fitLogisticRegression lib f l it rp en df = Inr m \<and> numFeatures m = n \<and>
             numClasses m = Suc (nat \<lfloor>fold max ys 0\<rfloor>)"
proof -
  obtain x rest where x: "xs = x # rest" using ne by (cases xs) auto
  have f1: "filter (\<lambda>v. length v \<noteq> length x) xs = []"
    using len x by (auto simp: filter_empty_conv list_all_iff)
  have f2: "filter (\<lambda>y. \<not> validLabel y) ys = []"
    using valid by (auto simp: filter_empty_conv list_all_iff)
  have "length x = n" using len x by simp
  then show ?thesis
    using f1 f2 by (simp add: fitLogisticRegression_def xs ys x Let_def)
qed

lemma trainedOn_ok:
  assumes "df \<noteq> []" and "list_all trainingRow df"
  shows "\<exists>m. trainedOn lib df = Inr m \<and> numFeatures m = 10000 \<and> numClasses m = labelClasses df"
proof -
  let ?w = "fittedIdf lib df"
  have t: "list_all textRow df"
    using assms(2) by (rule list_all_mono) (rule trainingRow_textRow)
  have xs: "traverse (vectorOf ''features'') (map (weighted lib ?w) df) =
      Inr (map (\<lambda>r. featureVector lib ?w (textOf r)) df)"
    by (rule traverse_map_map) (rule list_all_mono[OF t], rule vectorOf_weighted)
  obtain ys where ys: "traverse (labelOf ''label'') df = Inr ys" "list_all validLabel ys"
    using training_labels[OF assms(2)] by blast
  have "\<exists>m. fitLogisticRegression lib ''features'' ''label'' 10 0.3 0.8 (map (weighted lib ?w) df) = Inr m
      \<and> numFeatures m = 10000 \<and> numClasses m = Suc (nat \<lfloor>fold max ys 0\<rfloor>)"
    using assms(1) ys(2)
    by (intro fitLogisticRegression_ok[OF xs])
      (simp_all add: list_all_iff length_featureVector traverse_labelOf_weighted ys(1))
  then show ?thesis
    by (simp add: trainedOn_def labelClasses_def ys(1))
qed

lemma pipelineFit_text_rows:
  assumes "df \<noteq> []" and "list_all textRow df"
  shows "pipelineFit lib (pipeline lib) df =
     andThen (trainedOn lib df) (\<lambda>m.
       Inr [tokenizer lib, remover lib, hashing_tf lib,
            IDFModel ''raw_features'' ''features'' (fittedIdf lib df),
            LogisticRegressionModel ''features'' m])"
  using idf_fit_text_rows[OF assms, of lib]
  by (simp add: pipeline_def tokenizer_df[OF assms(2)] remover_df[OF assms(2)]
      hashing_tf_df[OF assms(2)] IDFModel_df[OF assms(2)] length_fittedIdf trainedOn_def lr_def
      andThen_def split: sum.splits)

lemma pipelineFit_total:
  assumes "df \<noteq> []" and "list_all trainingRow df"
  shows "\<exists>pm. pipelineFit lib (pipeline lib) df = Inr pm"
proof -
  have t: "list_all textRow df"
    using assms(2) by (rule list_all_mono) (rule trainingRow_textRow)
  obtain m where "trainedOn lib df = Inr m"
    using trainedOn_ok[OF assms] by blast
  then show ?thesis
    by (simp add: pipelineFit_text_rows[OF assms(1) t])
qed

lemma pipeline_for_saving_text_rows:
  assumes "df \<noteq> []" and "list_all textRow df"
  shows "pipelineFit lib (pipeline_for_saving lib lrm) df =
     Inr [tokenizer lib, remover lib, hashing_tf lib,
          IDFModel ''raw_features'' ''features'' (fittedIdf lib df), lrm]"
  using idf_fit_text_rows[OF assms, of lib]
  by (simp add: pipeline_for_saving_def tokenizer_df[OF assms(2)] remover_df[OF assms(2)]
      hashing_tf_df[OF assms(2)])

subsection \<open>What a successful fit returns\<close>

lemma idfWeights_length:
  assumes "idfWeights docs = Inr w" and "\<forall>d \<in> set docs. length d = n"
  shows "length w = n"
  using assms
  by (auto simp: idfWeights_def split: list.splits)

lemma IDF_fit_length:
  assumes fit: "estimatorFit lib (IDF i c) df = Inr t"
    and col: "\<forall>r \<in> set df. \<exists>v. vectorOf i r = Inr v \<and> length v = n"
  shows "\<exists>w. t = IDFModel i c w \<and> length w = n"
proof -
  from fit obtain docs w where d: "traverse (vectorOf i) df = Inr docs"
    and w: "idfWeights docs = Inr w" and t: "t = IDFModel i c w"
    by (auto simp: andThen_Inr_iff)
  have "\<forall>d \<in> set docs. length d = n"
  proof
    fix x assume "x \<in> set docs"
    then obtain r where "r \<in> set df" "vectorOf i r = Inr x"
      using traverse_set[OF d] by blast
    then show "length x = n" using col by fastforce
  qed
  then show ?thesis using idfWeights_length[OF w] t by simp
qed

lemma fitLogisticRegression_Inr:
  assumes "fitLogisticRegression lib f l it rp en df = Inr m"
  shows "\<exists>x rest ys. traverse (vectorOf f) df = Inr (x # rest) \<and>
           traverse (labelOf l) df = Inr ys \<and>
           filter (\<lambda>y. \<not> validLabel y) ys = [] \<and>
           numClasses m = Suc (nat \<lfloor>fold max ys 0\<rfloor>) \<and> numFeatures m = length x"
proof -
  from assms obtain xs ys where xs: "traverse (vectorOf f) df = Inr xs"
    and ys: "traverse (labelOf l) df = Inr ys"
    and c: "(case xs of
         [] \<Rightarrow> Inl EmptyDataset
       | x # _ \<Rightarrow>
           (case filter (\<lambda>v. length v \<noteq> length x) xs of
              v # _ \<Rightarrow> Inl (DimensionMismatch (length x) (length v))
            | [] \<Rightarrow>
                (case filter (\<lambda>y. \<not> validLabel y) ys of
                   y # _ \<Rightarrow> Inl (InvalidLabel y)
                 | [] \<Rightarrow>
                     (let k = Suc (nat \<lfloor>fold max ys 0\<rfloor>);
                          n = length x;
                          wb = optimize lib it rp en k n (zip xs ys)
                      in Inr \<lparr>numClasses = k, numFeatures = n,
                               coefficientMatrix = fst wb, interceptVector = snd wb\<rparr>)))) = Inr m"
    unfolding fitLogisticRegression_def andThen_Inr_iff by blast
  from c obtain x rest where x: "xs = x # rest"
    by (cases xs) simp_all
  from c x have f1: "filter (\<lambda>v. length v \<noteq> length x) xs = []"
    by (cases "filter (\<lambda>v. length v \<noteq> length x) xs") simp_all
  from c x f1 have f2: "filter (\<lambda>y. \<not> validLabel y) ys = []"
    by (cases "filter (\<lambda>y. \<not> validLabel y) ys") simp_all
  from c x f1 f2 have "numClasses m = Suc (nat \<lfloor>fold max ys 0\<rfloor>)" "numFeatures m = length x"
    by (auto simp: Let_def)
  then show ?thesis using xs ys x f2 by blast
qed

lemma fitLogisticRegression_numFeatures:
  assumes fit: "fitLogisticRegression lib f l it rp en df = Inr m"
    and col: "\<forall>r \<in> set df. \<exists>v. vectorOf f r = Inr v \<and> length v = n"
  shows "numFeatures m = n"
proof -
  from fitLogisticRegression_Inr[OF fit] obtain x rest
    where xs: "traverse (vectorOf f) df = Inr (x # rest)" and n: "numFeatures m = length x"
    by blast
  have "x \<in> set (x # rest)" by simp
  then obtain r where "r \<in> set df" "vectorOf f r = Inr x"
    using traverse_set[OF xs] by blast
  then show ?thesis using col n by fastforce
qed

lemma transform_keeps_labels:
  assumes "transform t df = Inr df'"
    and "\<And>r r'. transformRow t r = Inr r' \<Longrightarrow> \<exists>c v. c \<noteq> ''label'' \<and> r' = r @ [(c, v)]"
  shows "traverse (labelOf ''label'') df' = traverse (labelOf ''label'') df"
proof -
  have "list_all2 (\<lambda>r r'. transformRow t r = Inr r') df df'"
    using assms(1) by (simp add: transform_def traverse_Inr_iff)
  then show ?thesis
  proof (induction rule: list_all2_induct)
    case Nil
    then show ?case by simp
  next
    case (Cons r df r' df')
    obtain c v where "c \<noteq> ''label''" "r' = r @ [(c, v)]"
      using assms(2)[OF Cons.hyps(1)] by blast
    then have "labelOf ''label'' r' = labelOf ''label'' r"
      by (simp add: labelOf_appended)
    then show ?case using Cons.IH by (simp split: sum.splits)
  qed
qed

lemma pipelineFit_unfold:
  assumes "pipelineFit lib (pipeline lib) df = Inr pm"
  shows "\<exists>df1 df2 df3 df4 w m.
     transform (tokenizer lib) df = Inr df1 \<and> transform (remover lib) df1 = Inr df2 \<and>
     transform (hashing_tf lib) df2 = Inr df3 \<and>
     estimatorFit lib idf df3 = Inr (IDFModel ''raw_features'' ''features'' w) \<and>
     transform (IDFModel ''raw_features'' ''features'' w) df3 = Inr df4 \<and>
     fitLogisticRegression lib ''features'' ''label'' 10 0.3 0.8 df4 = Inr m \<and>
     pm = [tokenizer lib, remover lib, hashing_tf lib, IDFModel ''raw_features'' ''features'' w,
           LogisticRegressionModel ''features'' m]"
  using assms
  apply (simp add: pipeline_def andThen_Inr_iff idf_def lr_def)
  apply (elim exE conjE)
  apply auto
  done

lemma pipelineFit_shape:
  assumes "pipelineFit lib (pipeline lib) df = Inr pm"
  shows "\<exists>w m df4.
     pm = [tokenizer lib, remover lib, hashing_tf lib, IDFModel ''raw_features'' ''features'' w,
           LogisticRegressionModel ''features'' m] \<and>
     length w = 10000 \<and> numFeatures m = 10000 \<and> numClasses m = labelClasses df \<and>
     pipelineModelTransform
       [tokenizer lib, remover lib, hashing_tf lib, IDFModel ''raw_features'' ''features'' w] df = Inr df4 \<and>
     fitLogisticRegression lib ''features'' ''label'' 10 0.3 0.8 df4 = Inr m"
proof -
  from pipelineFit_unfold[OF assms] obtain df1 df2 df3 df4 w m where
    t1: "transform (tokenizer lib) df = Inr df1" and t2: "transform (remover lib) df1 = Inr df2" and
    t3: "transform (hashing_tf lib) df2 = Inr df3" and
    f4: "estimatorFit lib idf df3 = Inr (IDFModel ''raw_features'' ''features'' w)" and
    t4: "transform (IDFModel ''raw_features'' ''features'' w) df3 = Inr df4" and
    f5: "fitLogisticRegression lib ''features'' ''label'' 10 0.3 0.8 df4 = Inr m" and
    pm: "pm = [tokenizer lib, remover lib, hashing_tf lib, IDFModel ''raw_features'' ''features'' w,
           LogisticRegressionModel ''features'' m]"
    by blast
  have c3: "\<forall>r \<in> set df3. \<exists>v. vectorOf ''raw_features'' r = Inr v \<and> length v = 10000"
    using HashingTF_column[OF t3[unfolded hashing_tf_def]] by blast
  have w: "length w = 10000"
    using IDF_fit_length[OF f4[unfolded idf_def] c3] by simp
  have c4: "\<forall>r \<in> set df4. \<exists>v. vectorOf ''features'' r = Inr v \<and> length v = 10000"
    using IDFModel_column[OF t4 _ c3] by blast
  have m: "numFeatures m = 10000"
    using fitLogisticRegression_numFeatures[OF f5 c4] .
  have l1: "traverse (labelOf ''label'') df1 = traverse (labelOf ''label'') df"
    using Tokenizer_appends by (intro transform_keeps_labels[OF t1]) (fastforce simp: tokenizer_def)
  have l2: "traverse (labelOf ''label'') df2 = traverse (labelOf ''label'') df1"
    using StopWordsRemover_appends
    by (intro transform_keeps_labels[OF t2]) (fastforce simp: remover_def)
  have l3: "traverse (labelOf ''label'') df3 = traverse (labelOf ''label'') df2"
    using HashingTF_appends
    by (intro transform_keeps_labels[OF t3]) (fastforce simp: hashing_tf_def)
  have l4: "traverse (labelOf ''label'') df4 = traverse (labelOf ''label'') df3"
    using IDFModel_appends
    by (intro transform_keeps_labels[OF t4]) fastforce
  obtain ys where ys: "traverse (labelOf ''label'') df4 = Inr ys"
    "numClasses m = Suc (nat \<lfloor>fold max ys 0\<rfloor>)"
    using fitLogisticRegression_Inr[OF f5] by blast
  have k: "numClasses m = labelClasses df"
    using ys l1 l2 l3 l4 by (simp add: labelClasses_def)
  have "pipelineModelTransform
       [tokenizer lib, remover lib, hashing_tf lib, IDFModel ''raw_features'' ''features'' w] df = Inr df4"
    by (simp add: t1 t2 t3 t4)
  then show ?thesis using pm w m k f5 by blast
qed

lemma pipeline_for_saving_shape:
  assumes "pipelineFit lib (pipeline_for_saving lib lrm) df = Inr pm"
  shows "\<exists>w. pm = [tokenizer lib, remover lib, hashing_tf lib,
                    IDFModel ''raw_features'' ''features'' w, lrm] \<and> length w = 10000"
proof -
  from assms obtain df1 df2 df3 t where
    t1: "transform (tokenizer lib) df = Inr df1" and t2: "transform (remover lib) df1 = Inr df2" and
    t3: "transform (hashing_tf lib) df2 = Inr df3" and
    f4: "estimatorFit lib idf df3 = Inr t" and
    pm: "pm = [tokenizer lib, remover lib, hashing_tf lib, t, lrm]"
    by (auto simp: pipeline_for_saving_def andThen_Inr_iff)
  have c3: "\<forall>r \<in> set df3. \<exists>v. vectorOf ''raw_features'' r = Inr v \<and> length v = 10000"
    using HashingTF_column[OF t3[unfolded hashing_tf_def]] by blast
  obtain w where "t = IDFModel ''raw_features'' ''features'' w" "length w = 10000"
    using IDF_fit_length[OF f4[unfolded idf_def] c3] by blast
  then show ?thesis using pm by simp
qed

lemma lr_model_Inr:
  assumes "lr_model lib df = Inr t"
  shows "\<exists>m. t = LogisticRegressionModel ''features'' m \<and> numClasses m = labelClasses df"
proof -
  from assms obtain m where
    f: "fitLogisticRegression lib ''features'' ''label'' 10 0.3 0.8 df = Inr m" and
    t: "t = LogisticRegressionModel ''features'' m"
    by (auto simp: lr_model_def lr_def andThen_Inr_iff)
  obtain ys where "traverse (labelOf ''label'') df = Inr ys"
    "numClasses m = Suc (nat \<lfloor>fold max ys 0\<rfloor>)"
    using fitLogisticRegression_Inr[OF f] by blast
  then have "numClasses m = labelClasses df"
    by (simp add: labelClasses_def)
  then show ?thesis using t by blast
qed


section \<open>Runs of the fitted stages\<close>

lemma pipelineModelTransform_rows:
  "pipelineModelTransform ts df = Inr out \<Longrightarrow> list_all2 (\<lambda>r r'. pipelineRow ts r = Inr r') df out"
proof (induction ts arbitrary: df)
  case Nil
  then show ?case by (simp add: list.rel_refl)
next
  case (Cons t ts)
  from Cons.prems obtain df1 where t: "transform t df = Inr df1"
    and rest: "pipelineModelTransform ts df1 = Inr out"
    by (auto simp: andThen_Inr_iff)
  have a: "list_all2 (\<lambda>r r1. transformRow t r = Inr r1) df df1"
    using t by (simp add: transform_def traverse_Inr_iff)
  have b: "list_all2 (\<lambda>r1 r'. pipelineRow ts r1 = Inr r') df1 out"
    using Cons.IH[OF rest] .
  show ?case
    using list_all2_trans[of "\<lambda>r r1. transformRow t r = Inr r1"
        "\<lambda>r1 r'. pipelineRow ts r1 = Inr r'" "\<lambda>r r'. pipelineRow (t # ts) r = Inr r'", OF _ a b]
    by simp
qed

lemma predicted_row_is_textRow:
  assumes "pipelineRow
     [tokenizer lib, remover lib, hashing_tf lib, IDFModel ''raw_features'' ''features'' w,
      LogisticRegressionModel ''features'' m] r = Inr r'"
  shows "textRow r"
proof -
  from assms obtain r1 r2 r3 r4 where
    s1: "transformRow (tokenizer lib) r = Inr r1" and s2: "transformRow (remover lib) r1 = Inr r2" and
    s3: "transformRow (hashing_tf lib) r2 = Inr r3" and
    s4: "transformRow (IDFModel ''raw_features'' ''features'' w) r3 = Inr r4" and
    s5: "transformRow (LogisticRegressionModel ''features'' m) r4 = Inr r'"
    by (auto simp: andThen_Inr_iff)
  obtain s where s: "map_of r ''text'' = Some (StringV s)"
    using Tokenizer_text[OF s1[unfolded tokenizer_def]] by blast
  obtain v1 where a1: "map_of r ''words'' = None" "r1 = r @ [(''words'', v1)]"
    using Tokenizer_appends[OF s1[unfolded tokenizer_def]] by blast
  obtain v2 where a2: "map_of r1 ''filtered_words'' = None" "r2 = r1 @ [(''filtered_words'', v2)]"
    using StopWordsRemover_appends[OF s2[unfolded remover_def]] by blast
  obtain v3 where a3: "map_of r2 ''raw_features'' = None" "r3 = r2 @ [(''raw_features'', v3)]"
    using HashingTF_appends[OF s3[unfolded hashing_tf_def]] by blast
  obtain v4 where a4: "map_of r3 ''features'' = None" "r4 = r3 @ [(''features'', v4)]"
    using IDFModel_appends[OF s4] by blast
  have a5: "map_of r4 ''rawPrediction'' = None" "map_of r4 ''probability'' = None"
    "map_of r4 ''prediction'' = None"
    using LogisticRegressionModel_appends[OF s5] by auto
  have n: "map_of r ''words'' = None" "map_of r ''filtered_words'' = None"
    "map_of r ''raw_features'' = None" "map_of r ''features'' = None"
    "map_of r ''rawPrediction'' = None" "map_of r ''probability'' = None"
    "map_of r ''prediction'' = None"
    using a1 a2 a3 a4 a5 by (auto simp: map_add_def split: option.splits)
  then have "freshRow r"
    by (auto simp: freshRow_def outputCols_def map_of_eq_None_iff)
  then show ?thesis using s by (simp add: textRow_def)
qed

lemma predicted_row:
  assumes run: "pipelineRow
     [tokenizer lib, remover lib, hashing_tf lib, IDFModel ''raw_features'' ''features'' w,
      LogisticRegressionModel ''features'' m] r = Inr r'"
    and w: "10000 \<le> length w"
  shows "textRow r \<and> r' = predicted lib w m r"
proof -
  have t: "textRow r" using run by (rule predicted_row_is_textRow)
  have s: "transformRow (LogisticRegressionModel ''features'' m) (weighted lib w r) = Inr r'"
    using run
    by (simp add: tokenizer_row[OF t] remover_row[OF t] hashing_tf_row[OF t]
        IDFModel_text_row[OF t w] andThen_Inr_iff del: transformRow.simps)
  then obtain x where "map_of (weighted lib w r) ''features'' = Some (VectorV x)"
    "length x = numFeatures m"
    using LogisticRegressionModel_result by blast
  then have "numFeatures m = 10000"
    using weighted_columns(2)[OF t, of lib w] by (auto simp: length_featureVector)
  then show ?thesis
    using s t LogisticRegressionModel_text_row[OF t, of m lib w] by simp
qed


section \<open>The examples\<close>

lemma exampleTraining_nonempty: "exampleTraining \<noteq> []"
  by (simp add: exampleTraining_def)

lemma exampleTraining_classes: "labelClasses exampleTraining = 3"
  by (simp add: labelClasses_def exampleTraining_def labelOf_def getCol_def)

lemma exampleTraining_rows: "list_all trainingRow exampleTraining"
  by (simp add: exampleTraining_def trainingRow_def textRow_def freshRow_def outputCols_def
      labelOf_def getCol_def validLabel_def)

lemma exampleTraining_textRows: "list_all textRow exampleTraining"
  using exampleTraining_rows by (rule list_all_mono) (rule trainingRow_textRow)

lemma example_fit:
  "\<exists>pm. pipelineFit exampleLib (pipeline exampleLib) exampleTraining = Inr pm"
  using pipelineFit_total[OF exampleTraining_nonempty exampleTraining_rows] .

lemma exampleCleaned_model:
  "\<exists>m. lr_model_score_labeling exampleLib exampleCleaned = Inr (LogisticRegressionModel ''features'' m) \<and>
        numFeatures m = 10000"
proof -
  obtain m where m: "trainedOn exampleLib exampleTraining = Inr m" "numFeatures m = 10000"
    using trainedOn_ok[OF exampleTraining_nonempty exampleTraining_rows] by blast
  then show ?thesis
    by (simp add: lr_model_score_labeling_def lr_model_def lr_def exampleCleaned_def trainedOn_def)
qed

lemma exampleCleaned_classes: "labelClasses exampleCleaned = 3"
  using exampleTraining_classes
  by (simp add: labelClasses_def exampleCleaned_def traverse_labelOf_weighted)


section \<open>The training split\<close>

lemma normalizedCumWeights_80_20: "normalizedCumWeights [0.8, 0.2] = [0, 0.8, 1]"
  by (simp add: normalizedCumWeights_def)

section \<open>The message format\<close>

subsection \<open>Objects\<close>

lemma app_of_package_of: "app_of_package (package_of a) = Some a"
  by (cases a) (simp_all add: app_of_package_def configured_apps_def)

lemma from_json_to_json: "from_json (to_json m) = Some m"
  by (simp add: from_json_def to_json_def app_of_package_of)

subsection \<open>Strings\<close>

lemma hexDigit_table: "list_all (\<lambda>n. hexValue (hexDigit n) = Some n) [0..<16]"
  by code_simp

lemma hexValue_hexDigit: "n < 16 \<Longrightarrow> hexValue (hexDigit n) = Some n"
  using hexDigit_table by (simp add: list_all_iff)

lemma unicodeEscape_control:
  assumes "(of_char c :: nat) < 32"
  shows "unicodeEscape (CHR ''0'') (CHR ''0'') (hexDigit ((of_char c :: nat) div 16))
           (hexDigit ((of_char c :: nat) mod 16)) = Some c"
proof -
  let ?n = "of_char c :: nat"
  have "?n div 16 < 16" "?n mod 16 < 16" using assms by auto
  then have "hexValue (hexDigit (?n div 16)) = Some (?n div 16)"
    "hexValue (hexDigit (?n mod 16)) = Some (?n mod 16)"
    by (simp_all add: hexValue_hexDigit)
  moreover have "char_of (16 * (?n div 16) + ?n mod 16) = c"
    by simp
  ultimately show ?thesis
    by (simp add: unicodeEscape_def)
qed

lemma parse_string_body_escapeChar:
  "parse_string_body (escapeChar c @ s) = map_option (\<lambda>(t, r). (c # t, r)) (parse_string_body s)"
proof -
  consider "c = CHR 0x22" | "c = CHR 0x5C" | "c \<noteq> CHR 0x22" "c \<noteq> CHR 0x5C" "(of_char c :: nat) < 32"
    | "c \<noteq> CHR 0x22" "c \<noteq> CHR 0x5C" "\<not> (of_char c :: nat) < 32"
    by blast
  then show ?thesis
  proof cases
    case 1
    then show ?thesis by (simp add: escapeChar_def simpleEscape_def)
  next
    case 2
    then show ?thesis by (simp add: escapeChar_def simpleEscape_def)
  next
    case 3
    then show ?thesis
      using unicodeEscape_control[OF 3(3)] by (simp add: escapeChar_def)
  next
    case 4
    then show ?thesis by (simp add: escapeChar_def)
  qed
qed

lemma parse_string_body_escape:
  "parse_string_body (escape s @ CHR 0x22 # rest) = Some (s, rest)"
  by (induction s) (simp_all add: escape_def parse_string_body_escapeChar)

subsection \<open>Numbers\<close>

lemma of_char_digitChar: "d < 10 \<Longrightarrow> (of_char (digitChar d) :: nat) = 48 + d"
  by (simp add: digitChar_def)

lemma isDigit_digitChar: "d < 10 \<Longrightarrow> isDigit (digitChar d)"
  by (simp add: isDigit_def of_char_digitChar)

lemma digits_all_digits: "list_all isDigit (digits n)"
proof (induction n rule: digits.induct)
  case (1 n)
  show ?case
  proof (cases "n < 10")
    case True
    then show ?thesis by (subst digits.simps) (simp add: isDigit_digitChar)
  next
    case False
    then show ?thesis
      using "1.IH" by (subst digits.simps) (simp add: isDigit_digitChar)
  qed
qed

lemma digits_nonempty: "digits n \<noteq> []"
  by (subst digits.simps) simp

lemma digitsValue_snoc:
  "digitsValue (ds @ [c]) = 10 * digitsValue ds + ((of_char c :: nat) - 48)"
  by (simp add: digitsValue_def)

lemma digitsValue_digits: "digitsValue (digits n) = n"
proof (induction n rule: digits.induct)
  case (1 n)
  show ?case
  proof (cases "n < 10")
    case True
    then show ?thesis
      by (subst digits.simps) (simp add: digitsValue_def of_char_digitChar)
  next
    case False
    then have "digitsValue (digits (n div 10)) = n div 10" using "1.IH" by simp
    then show ?thesis
      using False
      by (subst digits.simps) (simp add: digitsValue_snoc of_char_digitChar)
  qed
qed

lemma takeWhile_digits:
  assumes "rest = [] \<or> \<not> isDigit (hd rest)"
  shows "takeWhile isDigit (digits n @ rest) = digits n"
    and "dropWhile isDigit (digits n @ rest) = rest"
proof -
  have a: "\<forall>c \<in> set (digits n). isDigit c"
    using digits_all_digits[of n] by (simp add: list_all_iff)
  have t: "takeWhile isDigit rest = []" and d: "dropWhile isDigit rest = rest"
    using assms by (cases rest; simp)+
  show "takeWhile isDigit (digits n @ rest) = digits n"
    using a t by (simp add: takeWhile_append2)
  show "dropWhile isDigit (digits n @ rest) = rest"
    using a d by (simp add: dropWhile_append2)
qed

lemma parse_nat_digits:
  assumes "rest = [] \<or> \<not> isDigit (hd rest)"
  shows "parse_nat (digits n @ rest) = Some (n, rest)"
proof -
  obtain d ds where d: "digits n = d # ds"
    using digits_nonempty[of n] by (cases "digits n") auto
  show ?thesis
    unfolding parse_nat_def takeWhile_digits[OF assms]
    by (simp add: d digitsValue_digits[of n, unfolded d])
qed

lemma digits_head: "\<exists>d ds. digits n = d # ds \<and> isDigit d"
proof -
  obtain d ds where d: "digits n = d # ds"
    using digits_nonempty[of n] by (cases "digits n") auto
  then show ?thesis using digits_all_digits[of n] by simp
qed

lemma isDigit_not_minus: "isDigit c \<Longrightarrow> c \<noteq> CHR ''-''"
  by (auto simp: isDigit_def)

lemma isDigit_not_quote: "isDigit c \<Longrightarrow> c \<noteq> CHR 0x22"
  by (auto simp: isDigit_def)

lemma isDigit_not_space: "isDigit c \<Longrightarrow> \<not> isJsonSpace c"
  by (auto simp: isDigit_def isJsonSpace_def)

lemma parse_int_render_int:
  assumes "rest = [] \<or> \<not> isDigit (hd rest)"
  shows "parse_int (render_int i @ rest) = Some (i, rest)"
proof (cases "i < 0")
  case True
  then show ?thesis
    by (simp add: parse_int_def render_int_def parse_nat_digits[OF assms])
next
  case False
  obtain d ds where d: "digits (nat i) = d # ds" "isDigit d"
    using digits_head by blast
  have "parse_nat (d # ds @ rest) = Some (nat i, rest)"
    using parse_nat_digits[OF assms, of "nat i"] d(1) by simp
  then show ?thesis
    using False isDigit_not_minus[OF d(2)] by (simp add: parse_int_def render_int_def d(1))
qed

subsection \<open>Values, members and objects\<close>

lemma render_json_head:
  "\<exists>c cs. render_json v = c # cs \<and> \<not> isJsonSpace c \<and> (c = CHR 0x22 \<longleftrightarrow> (\<exists>s. v = JString s))"
proof (cases v)
  case (JString s)
  then show ?thesis by (simp add: render_string_def isJsonSpace_def)
next
  case (JNumber i)
  obtain d ds where d: "digits (nat (if i < 0 then - i else i)) = d # ds" "isDigit d"
    using digits_head by blast
  show ?thesis
  proof (cases "i < 0")
    case True
    then show ?thesis using JNumber by (simp add: render_int_def isJsonSpace_def)
  next
    case False
    then show ?thesis
      using JNumber d isDigit_not_space[OF d(2)] isDigit_not_quote[OF d(2)]
      by (simp add: render_int_def)
  qed
qed

lemma parse_value_render_json:
  assumes "rest = [] \<or> \<not> isDigit (hd rest)"
  shows "parse_value (render_json v @ rest) = Some (v, rest)"
proof (cases v)
  case (JString s)
  then show ?thesis
    by (simp add: parse_value_def render_string_def parse_string_body_escape)
next
  case (JNumber i)
  obtain c cs where c: "render_json v = c # cs" "c \<noteq> CHR 0x22"
    using render_json_head[of v] JNumber by auto
  have "parse_int (c # cs @ rest) = Some (i, rest)"
    using parse_int_render_int[OF assms, of i] c(1) JNumber by simp
  then show ?thesis
    using c JNumber by (simp add: parse_value_def)
qed

lemma skip_ws_nonspace: "\<not> isJsonSpace c \<Longrightarrow> skip_ws (c # cs) = c # cs"
  by (simp add: skip_ws_def)

lemma skip_ws_space: "skip_ws (CHR '' '' # cs) = skip_ws cs"
  by (simp add: skip_ws_def isJsonSpace_def)

lemma skip_ws_render_json: "skip_ws (render_json v @ rest) = render_json v @ rest"
proof -
  obtain c cs where "render_json v = c # cs" "\<not> isJsonSpace c"
    using render_json_head[of v] by blast
  then show ?thesis by (simp add: skip_ws_nonspace)
qed

lemma parse_members_skip_space:
  "parse_members fuel (CHR '' '' # s) = parse_members fuel s"
  by (cases fuel) (simp_all add: skip_ws_space)

lemma render_members_Cons:
  "kvs \<noteq> [] \<Longrightarrow> render_members (kv # kvs) = render_member kv @ '', '' @ render_members kvs"
  by (cases kvs) simp_all

lemma parse_member_step:
  assumes "sep = CHR ''}'' \<or> sep = CHR '',''"
  shows "parse_members (Suc fuel) (render_member (k, v) @ sep # r5) =
     (if sep = CHR ''}'' then Some ([(k, v)], r5)
      else map_option (\<lambda>(ms, r). ((k, v) # ms, r)) (parse_members fuel r5))"
proof -
  have nd: "sep # r5 = [] \<or> \<not> isDigit (hd (sep # r5))"
    using assms by (auto simp: isDigit_def)
  have ns: "\<not> isJsonSpace sep"
    using assms by (auto simp: isJsonSpace_def)
  have s1: "skip_ws (render_member (k, v) @ sep # r5) =
      CHR 0x22 # escape k @ CHR 0x22 # CHR '':'' # CHR '' '' # render_json v @ sep # r5"
    by (simp add: render_member_def render_string_def skip_ws_def isJsonSpace_def)
  have s2: "skip_ws (CHR '':'' # CHR '' '' # render_json v @ sep # r5) =
      CHR '':'' # CHR '' '' # render_json v @ sep # r5"
    by (simp add: skip_ws_def isJsonSpace_def)
  have s3: "skip_ws (CHR '' '' # render_json v @ sep # r5) = render_json v @ sep # r5"
    by (simp add: skip_ws_space skip_ws_render_json)
  have step: "parse_members (Suc fuel) (render_member (k, v) @ sep # r5) =
     (if sep = CHR ''}'' then Some ([(k, v)], r5)
      else if sep = CHR '','' then
        map_option (\<lambda>(ms, r). ((k, v) # ms, r)) (parse_members fuel r5)
      else None)"
    by (simp add: s1 parse_string_body_escape s2 s3 parse_value_render_json[OF nd]
        skip_ws_nonspace[OF ns])
  show ?thesis
  proof (cases "sep = CHR ''}''")
    case True
    then show ?thesis using step by simp
  next
    case False
    then have "sep = CHR '',''" using assms by simp
    then show ?thesis using step by simp
  qed
qed

lemma parse_members_render_members:
  assumes "ms \<noteq> []" and "length ms \<le> fuel"
  shows "parse_members fuel (render_members ms @ CHR ''}'' # rest) = Some (ms, rest)"
  using assms
proof (induction ms arbitrary: fuel)
  case Nil
  then show ?case by simp
next
  case (Cons kv ms)
  obtain k v where kv: "kv = (k, v)" by (cases kv) auto
  obtain f where f: "fuel = Suc f" "length ms \<le> f"
    using Cons.prems(2) by (cases fuel) auto
  show ?case
  proof (cases "ms = []")
    case True
    then show ?thesis
      using parse_member_step[of "CHR ''}''" f k v rest] by (simp add: kv f(1))
  next
    case False
    have "parse_members f (render_members ms @ CHR ''}'' # rest) = Some (ms, rest)"
      using Cons.IH[OF False f(2)] .
    then have "parse_members f (CHR '' '' # render_members ms @ CHR ''}'' # rest) = Some (ms, rest)"
      by (simp add: parse_members_skip_space)
    then show ?thesis
      using parse_member_step[of "CHR '',''" f k v
          "CHR '' '' # render_members ms @ CHR ''}'' # rest"]
      by (simp add: kv f(1) render_members_Cons[OF False])
  qed
qed

lemma length_render_members: "length ms \<le> length (render_members ms)"
proof (induction ms rule: render_members.induct)
  case 1
  then show ?case by simp
next
  case (2 kv)
  then show ?case by (simp add: render_member_def render_string_def)
next
  case (3 kv v va)
  then show ?case by (simp add: render_member_def render_string_def)
qed

lemma render_members_head:
  "ms \<noteq> [] \<Longrightarrow> \<exists>cs. render_members ms = CHR 0x22 # cs"
  by (induction ms rule: render_members.induct)
    (simp_all add: render_member_def render_string_def)

lemma parse_render: "parse (render obj) = Some obj"
proof (cases "obj = []")
  case True
  then show ?thesis
    by (simp add: parse_def render_def skip_ws_def isJsonSpace_def)
next
  case False
  let ?r = "render_members obj @ ''}''"
  obtain cs where cs: "render_members obj = CHR 0x22 # cs"
    using render_members_head[OF False] by blast
  have s: "skip_ws ?r = CHR 0x22 # cs @ ''}''"
    by (simp add: cs skip_ws_def isJsonSpace_def)
  have "length obj \<le> length ?r"
    using length_render_members[of obj] by simp
  then have p: "parse_members (length ?r) ?r = Some (obj, [])"
    using parse_members_render_members[OF False, of "length ?r" "[]"] by simp
  have e: "skip_ws [] = []" by (simp add: skip_ws_def)
  have b: "skip_ws (CHR ''{'' # ?r) = CHR ''{'' # ?r"
    by (rule skip_ws_nonspace) (simp add: isJsonSpace_def)
  have "parse (CHR ''{'' # ?r) = Some obj"
    using p unfolding parse_def b by (simp add: s e del: parse_members.simps)
  then show ?thesis by (simp add: render_def)
qed

section \<open>The producer's cycle\<close>

lemma publish_new_logged: "logged (publish_new st rs) = logged st"
  by (induction rs arbitrary: st) simp_all

lemma publish_new_result:
  "\<exists>new. topic (publish_new st rs) = topic st @ map serialize new \<and>
         seen (publish_new st rs) = seen st \<union> review_id ` set new \<and>
         set new \<subseteq> set rs"
proof (induction rs arbitrary: st)
  case Nil
  show ?case by (rule exI[of _ "[]"]) simp
next
  case (Cons r rs)
  show ?case
  proof (cases "review_id r \<in> seen st")
    case True
    obtain new where "topic (publish_new st rs) = topic st @ map serialize new"
      "seen (publish_new st rs) = seen st \<union> review_id ` set new" "set new \<subseteq> set rs"
      using Cons.IH[of st] by blast
    then show ?thesis using True by (intro exI[of _ new]) auto
  next
    case False
    let ?st = "st\<lparr>seen := insert (review_id r) (seen st), topic := topic st @ [serialize r]\<rparr>"
    obtain new where "topic (publish_new ?st rs) = topic ?st @ map serialize new"
      "seen (publish_new ?st rs) = seen ?st \<union> review_id ` set new" "set new \<subseteq> set rs"
      using Cons.IH[of ?st] by blast
    then show ?thesis using False by (intro exI[of _ "r # new"]) auto
  qed
qed

lemma publish_new_seen_mono: "seen st \<subseteq> seen (publish_new st rs)"
  using publish_new_result[of st rs] by auto

lemma publish_new_sees_all: "r \<in> set rs \<Longrightarrow> review_id r \<in> seen (publish_new st rs)"
proof (induction rs arbitrary: st)
  case Nil
  then show ?case by simp
next
  case (Cons a rs)
  show ?case
  proof (cases "r = a")
    case True
    then show ?thesis
      using publish_new_seen_mono[of st rs]
        publish_new_seen_mono[of "st\<lparr>seen := insert (review_id a) (seen st),
          topic := topic st @ [serialize a]\<rparr>" rs]
      by auto
  next
    case False
    then have "r \<in> set rs" using Cons.prems by simp
    then show ?thesis using Cons.IH by simp
  qed
qed

lemma fetch_and_publish_result:
  "\<exists>new. topic (fetch_and_publish fetch st apps) = topic st @ map serialize new \<and>
         seen (fetch_and_publish fetch st apps) = seen st \<union> review_id ` set new"
proof (induction apps arbitrary: st)
  case Nil
  show ?case by (rule exI[of _ "[]"]) simp
next
  case (Cons a apps)
  show ?case
  proof (cases "fetch a")
    case (Inl e)
    then show ?thesis
      using Cons.IH[of "st\<lparr>logged := logged st @ [(a, e)]\<rparr>"] by simp
  next
    case (Inr rs)
    obtain n1 where n1: "topic (publish_new st rs) = topic st @ map serialize n1"
      "seen (publish_new st rs) = seen st \<union> review_id ` set n1"
      using publish_new_result[of st rs] by blast
    obtain n2 where n2:
      "topic (fetch_and_publish fetch (publish_new st rs) apps) =
         topic (publish_new st rs) @ map serialize n2"
      "seen (fetch_and_publish fetch (publish_new st rs) apps) =
         seen (publish_new st rs) \<union> review_id ` set n2"
      using Cons.IH[of "publish_new st rs"] by blast
    show ?thesis
      using Inr n1 n2 by (intro exI[of _ "n1 @ n2"]) auto
  qed
qed

lemma fetch_and_publish_seen_mono: "seen st \<subseteq> seen (fetch_and_publish fetch st apps)"
  using fetch_and_publish_result[of fetch st apps] by auto

lemma fetch_and_publish_logged_mono:
  "set (logged st) \<subseteq> set (logged (fetch_and_publish fetch st apps))"
proof (induction apps arbitrary: st)
  case Nil
  then show ?case by simp
next
  case (Cons a apps)
  show ?case
  proof (cases "fetch a")
    case (Inl e)
    then show ?thesis
      using Cons.IH[of "st\<lparr>logged := logged st @ [(a, e)]\<rparr>"] by auto
  next
    case (Inr rs)
    then show ?thesis
      using Cons.IH[of "publish_new st rs"] by (simp add: publish_new_logged)
  qed
qed

lemma fetch_and_publish_logs_failure:
  assumes "a \<in> set apps" and "fetch a = Inl e"
  shows "(a, e) \<in> set (logged (fetch_and_publish fetch st apps))"
  using assms(1)
proof (induction apps arbitrary: st)
  case Nil
  then show ?case by simp
next
  case (Cons b apps)
  show ?case
  proof (cases "b = a")
    case True
    then show ?thesis
      using assms(2) fetch_and_publish_logged_mono[of "st\<lparr>logged := logged st @ [(a, e)]\<rparr>" fetch apps]
      by auto
  next
    case False
    then have "a \<in> set apps" using Cons.prems by simp
    then show ?thesis
      using Cons.IH by (cases "fetch b") simp_all
  qed
qed

lemma fetch_and_publish_sees_fetched:
  assumes "b \<in> set apps" and "fetch b = Inr rs" and "r \<in> set rs"
  shows "review_id r \<in> seen (fetch_and_publish fetch st apps)"
  using assms(1)
proof (induction apps arbitrary: st)
  case Nil
  then show ?case by simp
next
  case (Cons c apps)
  show ?case
  proof (cases "c = b")
    case True
    then show ?thesis
      using assms(2,3) publish_new_sees_all[of r rs st]
        fetch_and_publish_seen_mono[of "publish_new st rs" fetch apps]
      by auto
  next
    case False
    then have "b \<in> set apps" using Cons.prems by simp
    then show ?thesis
      using Cons.IH by (cases "fetch c") simp_all
  qed
qed

lemma all_apps_configured: "a \<in> set configured_apps"
  by (cases a) (simp_all add: configured_apps_def)

lemma fetched_from_Cons:
  "fetched_from fetch (a # apps) =
     (case fetch a of Inl e \<Rightarrow> [] | Inr rs \<Rightarrow> rs) @ fetched_from fetch apps"
  by (simp add: fetched_from_def)

lemma fetch_and_publish_publishes_fetched:
  "\<exists>new. topic (fetch_and_publish fetch st apps) = topic st @ map serialize new \<and>
         seen (fetch_and_publish fetch st apps) = seen st \<union> review_id ` set new \<and>
         set new \<subseteq> set (fetched_from fetch apps)"
proof (induction apps arbitrary: st)
  case Nil
  show ?case by (rule exI[of _ "[]"]) simp
next
  case (Cons a apps)
  show ?case
  proof (cases "fetch a")
    case (Inl e)
    obtain new where
      "topic (fetch_and_publish fetch (st\<lparr>logged := logged st @ [(a, e)]\<rparr>) apps) =
         topic st @ map serialize new"
      "seen (fetch_and_publish fetch (st\<lparr>logged := logged st @ [(a, e)]\<rparr>) apps) =
         seen st \<union> review_id ` set new"
      "set new \<subseteq> set (fetched_from fetch apps)"
      using Cons.IH[of "st\<lparr>logged := logged st @ [(a, e)]\<rparr>"] by auto
    then show ?thesis
      using Inl by (intro exI[of _ new]) (simp add: fetched_from_Cons)
  next
    case (Inr rs)
    obtain n1 where n1: "topic (publish_new st rs) = topic st @ map serialize n1"
      "seen (publish_new st rs) = seen st \<union> review_id ` set n1" "set n1 \<subseteq> set rs"
      using publish_new_result[of st rs] by blast
    obtain n2 where n2:
      "topic (fetch_and_publish fetch (publish_new st rs) apps) =
         topic (publish_new st rs) @ map serialize n2"
      "seen (fetch_and_publish fetch (publish_new st rs) apps) =
         seen (publish_new st rs) \<union> review_id ` set n2"
      "set n2 \<subseteq> set (fetched_from fetch apps)"
      using Cons.IH[of "publish_new st rs"] by blast
    show ?thesis
      using Inr n1 n2 by (intro exI[of _ "n1 @ n2"]) (auto simp: fetched_from_Cons)
  qed
qed

section \<open>The training-time preprocessing and the Stream Classifier\<close>




lemma load_classifier_Inr:
  assumes "load_classifier idf_model artifact dflt = Inr c"
  shows "\<exists>inputCol outputCol w featuresCol m.
           idf_model = Some (IDFModel inputCol outputCol w) \<and>
           artifact = Some (LogisticRegressionModel featuresCol m) \<and>
           c = \<lparr>weights = w, loaded_model = m, default_features = dflt\<rparr> \<and>
           numFeatures m = 10000 \<and> numClasses m = 3 \<and> length w = 10000 \<and> length dflt = 10000"
  using assms
  by (auto simp: load_classifier_def sentiment_labels_def
      split: option.splits transformer.splits if_splits)

lemma preprocess_Inr:
  assumes "10000 \<le> length w"
  shows "preprocess lib w s = Inr (featureVector lib w s)"
  using assms
  by (simp add: preprocess_def Let_def featureVector_def termVector_def idfTransform_scaled
      length_hashingTF)

lemma infer_Inr:
  assumes "length x = numFeatures m" and "numClasses m = 3"
  shows "infer m x = Inr (sentiment_labels ! nat (argmax (margins m x)), softmax (margins m x))"
    and "sentiment_labels ! nat (argmax (margins m x)) \<in> {''negative'', ''neutral'', ''positive''}"
    and "length (softmax (margins m x)) = 3"
    and "list_all (\<lambda>q. 0 \<le> q \<and> q \<le> 1) (softmax (margins m x))"
    and "sum_list (softmax (margins m x)) = 1"
proof -
  have kr: "0 \<le> argmax (margins m x)" "argmax (margins m x) < 3"
    using margins_argmax[of m x] assms(2) by auto
  have ne: "margins m x \<noteq> []" using length_margins[of m x] assms(2) by auto
  show "infer m x = Inr (sentiment_labels ! nat (argmax (margins m x)), softmax (margins m x))"
    using assms(1) kr by (simp add: infer_def Let_def sentiment_labels_def)
  show "sentiment_labels ! nat (argmax (margins m x)) \<in> {''negative'', ''neutral'', ''positive''}"
    using kr by (rule sentiment_label_cases)
  show "length (softmax (margins m x)) = 3"
    using assms(2) by (simp add: length_softmax length_margins)
  show "list_all (\<lambda>q. 0 \<le> q \<and> q \<le> 1) (softmax (margins m x))"
    using softmax_range by (auto simp: list_all_iff)
  show "sum_list (softmax (margins m x)) = 1" using ne by (rule sum_list_softmax)
qed

lemma features_of_Inr:
  assumes "length (weights c) = 10000" and "length (default_features c) = 10000"
  shows "\<exists>x. features_of lib c r = Inr x \<and> length x = 10000 \<and>
             (map_of r ''text'' \<in> {None, Some Null, Some (StringV '''')} \<longrightarrow> x = default_features c)"
proof (cases "\<exists>s. map_of r ''text'' = Some (StringV s) \<and> s \<noteq> []")
  case True
  then obtain s where s: "map_of r ''text'' = Some (StringV s)" "s \<noteq> []" by blast
  have "features_of lib c r = Inr (featureVector lib (weights c) s)"
    using s assms(1) by (simp add: features_of_def preprocess_Inr)
  then show ?thesis
    using s by (auto simp: length_featureVector)
next
  case False
  then have "features_of lib c r = Inr (default_features c)"
    by (auto simp: features_of_def split: option.splits cell.splits)
  then show ?thesis using assms(2) by simp
qed

section \<open>The claims\<close>

text \<open>
  Claim C1, as the code has it. What the notebook saves is \<^verbatim>\<open>lr_model\<close> alone, and that
  model reads the column \<^verbatim>\<open>features\<close>: applied to a record that holds only a raw text
  it raises, because the column is missing.
\<close>

theorem saved_model_rejects_raw_text:
  "(case lr_model_score_labeling exampleLib exampleCleaned of
      Inr artifact \<Rightarrow>
        transformRow artifact [(''text'', StringV ''Good app'')] = Inl (ColumnNotFound ''features'')
    | Inl e \<Rightarrow> False)"
proof -
  obtain m where
    "lr_model_score_labeling exampleLib exampleCleaned = Inr (LogisticRegressionModel ''features'' m)"
    using exampleCleaned_model by blast
  then show ?thesis
    by (simp add: getCol_def)
qed

text \<open>
  Claim C1, amended. The saved artifact is the fitted logistic regression model, and its
  input contract is: feature vector in, class index plus probability vector out. Applied
  to a record that carries, in \<^verbatim>\<open>features\<close>, a vector of the size the model was trained
  with, it appends the raw prediction, a probability vector of three components in
  \<open>[0, 1]\<close> that sum to 1, and a prediction that is a class index 0, 1 or 2 (the positions
  of negative, neutral, positive in \<^verbatim>\<open>sentiment_labels\<close>). The feature-encoding steps are
  the caller's: on a record with only a raw text the artifact raises.
\<close>

theorem saved_model_takes_features:
  assumes saved: "lr_model_score_labeling lib training_data = Inr artifact"
    and three: "labelClasses training_data = 3"
  shows "\<exists>m. artifact = LogisticRegressionModel ''features'' m \<and>
     transformRow artifact [(''text'', StringV s)] = Inl (ColumnNotFound ''features'') \<and>
     (\<forall>r x. map_of r ''features'' = Some (VectorV x) \<and> length x = numFeatures m \<and>
            map_of r ''rawPrediction'' = None \<and> map_of r ''probability'' = None \<and>
            map_of r ''prediction'' = None \<longrightarrow>
        (\<exists>k p. transformRow artifact r =
                  Inr (r @ [(''rawPrediction'', VectorV (margins m x)),
                            (''probability'', VectorV p),
                            (''prediction'', DoubleV (real k))]) \<and>
               k < 3 \<and> sentiment_labels ! k \<in> {''negative'', ''neutral'', ''positive''} \<and>
               length p = 3 \<and> list_all (\<lambda>q. 0 \<le> q \<and> q \<le> 1) p \<and> sum_list p = 1))"
proof -
  from lr_model_Inr[OF saved[unfolded lr_model_score_labeling_def]] three obtain m where
    a: "artifact = LogisticRegressionModel ''features'' m" and k: "numClasses m = 3"
    by auto
  have raw: "transformRow artifact [(''text'', StringV s)] = Inl (ColumnNotFound ''features'')"
    unfolding a by (rule LogisticRegressionModel_no_features) simp
  have "\<exists>k p. transformRow artifact r =
                  Inr (r @ [(''rawPrediction'', VectorV (margins m x)),
                            (''probability'', VectorV p),
                            (''prediction'', DoubleV (real k))]) \<and>
               k < 3 \<and> sentiment_labels ! k \<in> {''negative'', ''neutral'', ''positive''} \<and>
               length p = 3 \<and> list_all (\<lambda>q. 0 \<le> q \<and> q \<le> 1) p \<and> sum_list p = 1"
    if h: "map_of r ''features'' = Some (VectorV x) \<and> length x = numFeatures m \<and>
            map_of r ''rawPrediction'' = None \<and> map_of r ''probability'' = None \<and>
            map_of r ''prediction'' = None" for r x
  proof -
    let ?k = "argmax (margins m x)"
    let ?p = "softmax (margins m x)"
    have kr: "0 \<le> ?k" "?k < 3"
      using margins_argmax[of m x] k by auto
    have ne: "margins m x \<noteq> []" using length_margins[of m x] k by auto
    have t: "transformRow artifact r =
        Inr (r @ [(''rawPrediction'', VectorV (margins m x)), (''probability'', VectorV ?p),
                  (''prediction'', DoubleV (real (nat ?k)))])"
      unfolding a using h kr LogisticRegressionModel_row[of r "''features''" x m] by simp
    have "nat ?k < 3" using kr by simp
    moreover have "sentiment_labels ! nat ?k \<in> {''negative'', ''neutral'', ''positive''}"
      using kr by (rule sentiment_label_cases)
    moreover have "length ?p = 3" using k by (simp add: length_softmax length_margins)
    moreover have "list_all (\<lambda>q. 0 \<le> q \<and> q \<le> 1) ?p"
      using softmax_range by (auto simp: list_all_iff)
    moreover have "sum_list ?p = 1" using ne by (rule sum_list_softmax)
    ultimately show ?thesis using t by blast
  qed
  then show ?thesis using a raw by blast
qed

theorem saved_model_takes_features_witness:
  "\<exists>artifact m x.
     lr_model_score_labeling exampleLib exampleCleaned = Inr artifact \<and>
     labelClasses exampleCleaned = 3 \<and>
     artifact = LogisticRegressionModel ''features'' m \<and>
     map_of (hd exampleCleaned) ''features'' = Some (VectorV x) \<and> length x = numFeatures m \<and>
     map_of (hd exampleCleaned) ''rawPrediction'' = None \<and>
     map_of (hd exampleCleaned) ''probability'' = None \<and>
     map_of (hd exampleCleaned) ''prediction'' = None \<and>
     transformRow artifact [(''text'', StringV ''Good app'')] = Inl (ColumnNotFound ''features'') \<and>
     (\<exists>k p. transformRow artifact (hd exampleCleaned) =
                  Inr (hd exampleCleaned @ [(''rawPrediction'', VectorV (margins m x)),
                            (''probability'', VectorV p),
                            (''prediction'', DoubleV (real k))]) \<and>
               k < 3 \<and> sentiment_labels ! k \<in> {''negative'', ''neutral'', ''positive''} \<and>
               length p = 3 \<and> list_all (\<lambda>q. 0 \<le> q \<and> q \<le> 1) p \<and> sum_list p = 1)"
proof -
  let ?w = "fittedIdf exampleLib exampleTraining"
  let ?r0 = "hd exampleTraining"
  obtain m0 where s: "lr_model_score_labeling exampleLib exampleCleaned =
      Inr (LogisticRegressionModel ''features'' m0)" and n: "numFeatures m0 = 10000"
    using exampleCleaned_model by blast
  from saved_model_takes_features[OF s exampleCleaned_classes, of "''Good app''"] obtain m where
    a: "LogisticRegressionModel ''features'' m0 = LogisticRegressionModel ''features'' m" and
    raw: "transformRow (LogisticRegressionModel ''features'' m0) [(''text'', StringV ''Good app'')] =
       Inl (ColumnNotFound ''features'')" and
    all: "\<forall>r x. map_of r ''features'' = Some (VectorV x) \<and> length x = numFeatures m \<and>
            map_of r ''rawPrediction'' = None \<and> map_of r ''probability'' = None \<and>
            map_of r ''prediction'' = None \<longrightarrow>
        (\<exists>k p. transformRow (LogisticRegressionModel ''features'' m0) r =
                  Inr (r @ [(''rawPrediction'', VectorV (margins m x)),
                            (''probability'', VectorV p),
                            (''prediction'', DoubleV (real k))]) \<and>
               k < 3 \<and> sentiment_labels ! k \<in> {''negative'', ''neutral'', ''positive''} \<and>
               length p = 3 \<and> list_all (\<lambda>q. 0 \<le> q \<and> q \<le> 1) p \<and> sum_list p = 1)"
    by blast
  have t: "textRow ?r0"
    using exampleTraining_rows by (simp add: exampleTraining_def trainingRow_def)
  have h: "hd exampleCleaned = weighted exampleLib ?w ?r0"
    by (simp add: exampleCleaned_def exampleTraining_def)
  let ?x = "featureVector exampleLib ?w (textOf ?r0)"
  have cols: "map_of (hd exampleCleaned) ''features'' = Some (VectorV ?x)"
    "map_of (hd exampleCleaned) ''rawPrediction'' = None"
    "map_of (hd exampleCleaned) ''probability'' = None"
    "map_of (hd exampleCleaned) ''prediction'' = None"
    unfolding h using textRow_None[OF t] by (simp_all add: stage_simps)
  have len: "length ?x = numFeatures m"
    using a n by (simp add: length_featureVector)
  from all cols len have "\<exists>k p. transformRow (LogisticRegressionModel ''features'' m0) (hd exampleCleaned) =
                  Inr (hd exampleCleaned @ [(''rawPrediction'', VectorV (margins m ?x)),
                            (''probability'', VectorV p),
                            (''prediction'', DoubleV (real k))]) \<and>
               k < 3 \<and> sentiment_labels ! k \<in> {''negative'', ''neutral'', ''positive''} \<and>
               length p = 3 \<and> list_all (\<lambda>q. 0 \<le> q \<and> q \<le> 1) p \<and> sum_list p = 1"
    by blast
  then show ?thesis
    using s exampleCleaned_classes a cols len raw by blast
qed



text \<open>
  Claim C3. For every text input, the empty string included, the preprocessing of the
  fitted pipeline (its four feature stages) produces a feature vector of the one fixed
  length 10000: both the hashed term frequencies (\<^verbatim>\<open>raw_features\<close>) and the weighted
  vector (\<^verbatim>\<open>features\<close>) have that length, whatever the text, the training data, the
  stop words and the hash are.
\<close>

theorem feature_vector_has_length_10000:
  assumes "pipelineFit lib (pipeline lib) training_data = Inr pm"
  shows "\<exists>r' raw v. pipelineModelTransform (take 4 pm) [[(''text'', StringV s)]] = Inr [r'] \<and>
           map_of r' ''raw_features'' = Some (VectorV raw) \<and> length raw = 10000 \<and>
           map_of r' ''features'' = Some (VectorV v) \<and> length v = 10000"
proof -
  from pipelineFit_shape[OF assms] obtain w m where
    pm: "pm = [tokenizer lib, remover lib, hashing_tf lib, IDFModel ''raw_features'' ''features'' w,
           LogisticRegressionModel ''features'' m]" and
    w: "length w = 10000"
    by blast
  let ?r = "[(''text'', StringV s)]"
  have "pipelineModelTransform (take 4 pm) [?r] = Inr [weighted lib w ?r]"
    using feature_stages_df[of "[?r]" w lib] w
    by (simp add: pm textRow_single)
  then show ?thesis
    using weighted_columns[OF textRow_single, of lib w s]
    by (simp add: textOf_single length_termVector length_featureVector)
qed

theorem feature_vector_has_length_10000_witness:
  "\<exists>pm. pipelineFit exampleLib (pipeline exampleLib) exampleTraining = Inr pm \<and>
     (\<exists>r' raw v. pipelineModelTransform (take 4 pm) [[(''text'', StringV '''')]] = Inr [r'] \<and>
           map_of r' ''raw_features'' = Some (VectorV raw) \<and> length raw = 10000 \<and>
           map_of r' ''features'' = Some (VectorV v) \<and> length v = 10000)"
proof -
  obtain pm where pm: "pipelineFit exampleLib (pipeline exampleLib) exampleTraining = Inr pm"
    using example_fit by blast
  show ?thesis
    using pm feature_vector_has_length_10000[OF pm, of "''''"] by blast
qed




text \<open>
  Claim C5. Classification is a function of the text alone. Take the model the notebook
  trains, behind the four feature stages of the notebook with their IDF fitted (the
  stages of \<^verbatim>\<open>pipeline_for_saving\<close>), and run it twice, on any two batches it accepts: a
  record of the first run and a record of the second that hold the same text get a
  predicted class index and a probability vector, and get the same ones, whatever their
  other fields, their places in the batches and the other records of the batches are.
\<close>

theorem same_text_same_prediction:
  assumes trained: "lr_model lib training_data = Inr artifact"
    and three: "labelClasses training_data = 3"
    and fitted: "pipelineFit lib (pipeline_for_saving lib artifact) data = Inr pm"
    and run1: "pipelineModelTransform pm batch1 = Inr out1"
    and run2: "pipelineModelTransform pm batch2 = Inr out2"
    and i: "i < length batch1" and j: "j < length batch2"
    and same: "map_of (batch1 ! i) ''text'' = map_of (batch2 ! j) ''text''"
  shows "\<exists>k p. k < 3 \<and>
           map_of (out1 ! i) ''prediction'' = Some (DoubleV (real k)) \<and>
           map_of (out2 ! j) ''prediction'' = Some (DoubleV (real k)) \<and>
           map_of (out1 ! i) ''probability'' = Some (VectorV p) \<and>
           map_of (out2 ! j) ''probability'' = Some (VectorV p)"
proof -
  from lr_model_Inr[OF trained] three obtain m where
    a: "artifact = LogisticRegressionModel ''features'' m" and k: "numClasses m = 3"
    by auto
  from pipeline_for_saving_shape[OF fitted] obtain w where
    pm: "pm = [tokenizer lib, remover lib, hashing_tf lib,
               IDFModel ''raw_features'' ''features'' w, LogisticRegressionModel ''features'' m]"
    and w: "length w = 10000"
    unfolding a by blast
  have w': "10000 \<le> length w" using w by simp
  have "pipelineRow pm (batch1 ! i) = Inr (out1 ! i)"
    using pipelineModelTransform_rows[OF run1] i by (simp add: list_all2_conv_all_nth)
  then have r1: "textRow (batch1 ! i)" "out1 ! i = predicted lib w m (batch1 ! i)"
    using predicted_row[OF _ w'] unfolding pm by blast+
  have "pipelineRow pm (batch2 ! j) = Inr (out2 ! j)"
    using pipelineModelTransform_rows[OF run2] j by (simp add: list_all2_conv_all_nth)
  then have r2: "textRow (batch2 ! j)" "out2 ! j = predicted lib w m (batch2 ! j)"
    using predicted_row[OF _ w'] unfolding pm by blast+
  have t: "textOf (batch1 ! i) = textOf (batch2 ! j)"
    using r1(1) r2(1) same by (rule textRow_textOf)
  let ?x = "featureVector lib w (textOf (batch1 ! i))"
  have kr: "0 \<le> argmax (margins m ?x)" "argmax (margins m ?x) < 3"
    using margins_argmax[of m ?x] k by auto
  have "map_of (out1 ! i) ''prediction'' = Some (DoubleV (real (nat (argmax (margins m ?x)))))"
    "map_of (out2 ! j) ''prediction'' = Some (DoubleV (real (nat (argmax (margins m ?x)))))"
    "map_of (out1 ! i) ''probability'' = Some (VectorV (softmax (margins m ?x)))"
    "map_of (out2 ! j) ''probability'' = Some (VectorV (softmax (margins m ?x)))"
    using predicted_columns(3,4)[OF r1(1), of lib w m] predicted_columns(3,4)[OF r2(1), of lib w m]
      kr t
    by (simp_all add: r1(2) r2(2))
  moreover have "nat (argmax (margins m ?x)) < 3" using kr by simp
  ultimately show ?thesis by blast
qed

theorem same_text_same_prediction_witness:
  "\<exists>artifact pm out1 out2.
     lr_model exampleLib exampleCleaned = Inr artifact \<and>
     labelClasses exampleCleaned = 3 \<and>
     pipelineFit exampleLib (pipeline_for_saving exampleLib artifact) exampleTraining = Inr pm \<and>
     pipelineModelTransform pm [exampleReview] = Inr out1 \<and>
     pipelineModelTransform pm [exampleOther, exampleRepeat] = Inr out2 \<and>
     0 < length [exampleReview] \<and> 1 < length [exampleOther, exampleRepeat] \<and>
     map_of ([exampleReview] ! 0) ''text'' = map_of ([exampleOther, exampleRepeat] ! 1) ''text'' \<and>
     [exampleReview] ! 0 \<noteq> [exampleOther, exampleRepeat] ! 1 \<and>
     (\<exists>k p. k < 3 \<and>
           map_of (out1 ! 0) ''prediction'' = Some (DoubleV (real k)) \<and>
           map_of (out2 ! 1) ''prediction'' = Some (DoubleV (real k)) \<and>
           map_of (out1 ! 0) ''probability'' = Some (VectorV p) \<and>
           map_of (out2 ! 1) ''probability'' = Some (VectorV p))"
proof -
  let ?w = "fittedIdf exampleLib exampleTraining"
  obtain m where a: "lr_model exampleLib exampleCleaned = Inr (LogisticRegressionModel ''features'' m)"
    and n: "numFeatures m = 10000"
    using exampleCleaned_model by (auto simp: lr_model_score_labeling_def)
  let ?pm = "[tokenizer exampleLib, remover exampleLib, hashing_tf exampleLib,
              IDFModel ''raw_features'' ''features'' ?w, LogisticRegressionModel ''features'' m]"
  have f: "pipelineFit exampleLib
      (pipeline_for_saving exampleLib (LogisticRegressionModel ''features'' m)) exampleTraining =
      Inr ?pm"
    using pipeline_for_saving_text_rows[OF exampleTraining_nonempty exampleTraining_textRows] .
  have w: "10000 \<le> length ?w" by (simp add: length_fittedIdf)
  have t1: "list_all textRow [exampleReview]"
    by (simp add: exampleReview_def textRow_def freshRow_def outputCols_def)
  have t2: "list_all textRow [exampleOther, exampleRepeat]"
    by (simp add: exampleOther_def exampleRepeat_def textRow_def freshRow_def outputCols_def)
  have r1: "pipelineModelTransform ?pm [exampleReview] =
      Inr (map (predicted exampleLib ?w m) [exampleReview])"
    using fitted_pipeline_df[OF t1 w n] .
  have r2: "pipelineModelTransform ?pm [exampleOther, exampleRepeat] =
      Inr (map (predicted exampleLib ?w m) [exampleOther, exampleRepeat])"
    using fitted_pipeline_df[OF t2 w n] .
  have i: "0 < length [exampleReview]" and j: "1 < length [exampleOther, exampleRepeat]"
    by simp_all
  have same: "map_of ([exampleReview] ! 0) ''text'' = map_of ([exampleOther, exampleRepeat] ! 1) ''text''"
    by (simp add: exampleReview_def exampleRepeat_def)
  have diff: "[exampleReview] ! 0 \<noteq> [exampleOther, exampleRepeat] ! 1"
    by (simp add: exampleReview_def exampleRepeat_def)
  show ?thesis
    using a exampleCleaned_classes f r1 r2 i j same diff
      same_text_same_prediction[OF a exampleCleaned_classes f r1 r2 i j same]
    by blast
qed

text \<open>
  Claim C6. A started classifier fails on no micro-batch and drops no record: whatever
  records a batch holds, the batch gives one classified record per record, in order,
  the record with a label (one of the three) and a probability appended, and the sink
  gets them all. A record whose text is missing, null or empty is mapped to the
  classifier's default feature vector, and its label and probability are those the
  model gives the default vector.
\<close>

theorem null_or_empty_text_is_classified:
  assumes loaded: "load_classifier idf_model artifact dflt = Inr c"
  shows "\<exists>records.
           classify_batch lib c batch = Inr records \<and>
           write_batch lib c sink batch = Inr (sink @ records) \<and>
           length records = length batch \<and>
           (\<forall>i<length batch. \<exists>label p.
              records ! i = batch ! i @ [(''predicted_label'', StringV label),
                                         (''probability'', VectorV p)] \<and>
              label \<in> {''negative'', ''neutral'', ''positive''} \<and>
              length p = 3 \<and> list_all (\<lambda>q. 0 \<le> q \<and> q \<le> 1) p \<and> sum_list p = 1 \<and>
              (map_of (batch ! i) ''text'' \<in> {None, Some Null, Some (StringV '''')} \<longrightarrow>
                 features_of lib c (batch ! i) = Inr dflt \<and>
                 infer (loaded_model c) dflt = Inr (label, p)))"
proof -
  from load_classifier_Inr[OF loaded] obtain w m where
    c: "c = \<lparr>weights = w, loaded_model = m, default_features = dflt\<rparr>" and
    m: "numFeatures m = 10000" "numClasses m = 3" and
    w: "length w = 10000" and d: "length dflt = 10000"
    by blast
  let ?P = "\<lambda>r r'. \<exists>label p.
              r' = r @ [(''predicted_label'', StringV label), (''probability'', VectorV p)] \<and>
              label \<in> {''negative'', ''neutral'', ''positive''} \<and>
              length p = 3 \<and> list_all (\<lambda>q. 0 \<le> q \<and> q \<le> 1) p \<and> sum_list p = 1 \<and>
              (map_of r ''text'' \<in> {None, Some Null, Some (StringV '''')} \<longrightarrow>
                 features_of lib c r = Inr dflt \<and> infer (loaded_model c) dflt = Inr (label, p))"
  have one: "\<exists>r'. classify_record lib c r = Inr r' \<and> ?P r r'" for r
  proof -
    obtain x where x: "features_of lib c r = Inr x" "length x = 10000"
      "map_of r ''text'' \<in> {None, Some Null, Some (StringV '''')} \<longrightarrow> x = dflt"
      using features_of_Inr[of c lib r] w d by (auto simp: c)
    have l: "length x = numFeatures m" using x(2) m(1) by simp
    have "classify_record lib c r =
        Inr (r @ [(''predicted_label'', StringV (sentiment_labels ! nat (argmax (margins m x)))),
                  (''probability'', VectorV (softmax (margins m x)))])"
      using x(1) infer_Inr(1)[OF l m(2)] by (simp add: classify_record_def c)
    moreover have "infer (loaded_model c) x =
        Inr (sentiment_labels ! nat (argmax (margins m x)), softmax (margins m x))"
      using infer_Inr(1)[OF l m(2)] by (simp add: c)
    ultimately show ?thesis
      using infer_Inr(2,3,4,5)[OF l m(2)] x(1,3) by blast
  qed
  obtain records where r: "classify_batch lib c batch = Inr records"
    "list_all2 ?P batch records"
    unfolding classify_batch_def using traverse_total[of "classify_record lib c" ?P batch] one
    by blast
  have "write_batch lib c sink batch = Inr (sink @ records)"
    by (simp add: write_batch_def r(1))
  moreover have "length records = length batch"
    using r(2) by (simp add: list_all2_lengthD)
  moreover have "\<forall>i<length batch. ?P (batch ! i) (records ! i)"
    using r(2) by (simp add: list_all2_conv_all_nth)
  ultimately show ?thesis using r(1) by blast
qed

theorem null_or_empty_text_is_classified_witness:
  "\<exists>artifact c records.
     lr_model_score_labeling exampleLib exampleCleaned = Inr artifact \<and>
     load_classifier
       (Some (IDFModel ''raw_features'' ''features'' (fittedIdf exampleLib exampleTraining)))
       (Some artifact) exampleDefault = Inr c \<and>
     classify_batch exampleLib c [exampleReview, exampleNullReview, exampleEmptyReview] =
       Inr records \<and>
     length records = 3 \<and>
     map_of exampleNullReview ''text'' = Some Null \<and>
     map_of exampleEmptyReview ''text'' = Some (StringV '''') \<and>
     features_of exampleLib c exampleNullReview = Inr exampleDefault \<and>
     features_of exampleLib c exampleEmptyReview = Inr exampleDefault \<and>
     (\<exists>label p.
        records ! 1 = exampleNullReview @ [(''predicted_label'', StringV label),
                                           (''probability'', VectorV p)] \<and>
        records ! 2 = exampleEmptyReview @ [(''predicted_label'', StringV label),
                                            (''probability'', VectorV p)] \<and>
        label \<in> {''negative'', ''neutral'', ''positive''} \<and>
        infer (loaded_model c) exampleDefault = Inr (label, p))"
proof -
  let ?idf = "Some (IDFModel ''raw_features'' ''features'' (fittedIdf exampleLib exampleTraining))"
  let ?batch = "[exampleReview, exampleNullReview, exampleEmptyReview]"
  obtain m where a: "lr_model_score_labeling exampleLib exampleCleaned =
      Inr (LogisticRegressionModel ''features'' m)" and n: "numFeatures m = 10000"
    using exampleCleaned_model by blast
  have k: "numClasses m = 3"
    using lr_model_Inr[OF a[unfolded lr_model_score_labeling_def]] exampleCleaned_classes by simp
  let ?c = "\<lparr>weights = fittedIdf exampleLib exampleTraining, loaded_model = m,
             default_features = exampleDefault\<rparr>"
  have l: "load_classifier ?idf (Some (LogisticRegressionModel ''features'' m)) exampleDefault =
      Inr ?c"
    using n k
    by (simp add: load_classifier_def sentiment_labels_def length_fittedIdf exampleDefault_def)
  obtain records where r: "classify_batch exampleLib ?c ?batch = Inr records"
    "length records = length ?batch" and
    all: "\<forall>i<length ?batch. \<exists>label p.
              records ! i = ?batch ! i @ [(''predicted_label'', StringV label),
                                         (''probability'', VectorV p)] \<and>
              label \<in> {''negative'', ''neutral'', ''positive''} \<and>
              length p = 3 \<and> list_all (\<lambda>q. 0 \<le> q \<and> q \<le> 1) p \<and> sum_list p = 1 \<and>
              (map_of (?batch ! i) ''text'' \<in> {None, Some Null, Some (StringV '''')} \<longrightarrow>
                 features_of exampleLib ?c (?batch ! i) = Inr exampleDefault \<and>
                 infer (loaded_model ?c) exampleDefault = Inr (label, p))"
    using null_or_empty_text_is_classified[OF l, of exampleLib ?batch "[]"] by blast
  have tn: "map_of exampleNullReview ''text'' = Some Null"
    by (simp add: exampleNullReview_def)
  have te: "map_of exampleEmptyReview ''text'' = Some (StringV '''')"
    by (simp add: exampleEmptyReview_def)
  from all[rule_format, of 1] tn obtain l1 p1 where
    r1: "records ! 1 = exampleNullReview @ [(''predicted_label'', StringV l1),
                                            (''probability'', VectorV p1)]"
      "l1 \<in> {''negative'', ''neutral'', ''positive''}"
      "features_of exampleLib ?c exampleNullReview = Inr exampleDefault"
      "infer (loaded_model ?c) exampleDefault = Inr (l1, p1)"
    by auto
  from all[rule_format, of 2] te obtain l2 p2 where
    r2: "records ! 2 = exampleEmptyReview @ [(''predicted_label'', StringV l2),
                                             (''probability'', VectorV p2)]"
      "features_of exampleLib ?c exampleEmptyReview = Inr exampleDefault"
      "infer (loaded_model ?c) exampleDefault = Inr (l2, p2)"
    by auto
  have same: "l2 = l1" "p2 = p1" using r1(4) r2(3) by simp_all
  have len: "length records = 3" using r(2) by simp
  show ?thesis
    using a l r(1) len tn te r1 r2(1,2)[unfolded same] by blast
qed

text \<open>
  Claim C7. For every review message (every record with the fields \<^verbatim>\<open>review_id\<close>,
  \<^verbatim>\<open>app_id\<close>, \<^verbatim>\<open>text\<close>, \<^verbatim>\<open>original_score\<close>, \<^verbatim>\<open>timestamp\<close>), serializing it to the JSON
  text of the topic message format and deserializing that text gives back the message.
\<close>

theorem deserialize_serialize: "deserialize (serialize m) = Some m"
  by (simp add: deserialize_def serialize_def parse_render from_json_to_json)

text \<open>
  Claim C8. In every timer cycle of the producer, whatever the review source returns: a
  fetch that fails for an app \<open>a\<close> is logged, and the cycle goes on, before and after the
  failure. For every review \<open>r\<close> fetched for another app \<open>b\<close> in the same cycle and not
  seen before the cycle, the cycle publishes a review that was fetched in this cycle and
  has the review id of \<open>r\<close>; when no other fetched review has this id (the ids are
  unique), what it publishes is \<open>r\<close> itself, serialized.
\<close>

theorem failed_fetch_does_not_stop_the_cycle:
  assumes failed: "fetch a = Inl e"
    and fetched: "fetch b = Inr rs" and r: "r \<in> set rs"
    and unseen: "review_id r \<notin> seen st"
  shows "(a, e) \<in> set (logged (producer_cycle fetch st)) \<and>
         (\<exists>r' \<in> set (fetched_in_cycle fetch).
            review_id r' = review_id r \<and> serialize r' \<in> set (published_in_cycle fetch st)) \<and>
         ((\<forall>r' \<in> set (fetched_in_cycle fetch). review_id r' = review_id r \<longrightarrow> r' = r) \<longrightarrow>
            serialize r \<in> set (published_in_cycle fetch st))"
proof -
  obtain new where new:
    "topic (producer_cycle fetch st) = topic st @ map serialize new"
    "seen (producer_cycle fetch st) = seen st \<union> review_id ` set new"
    "set new \<subseteq> set (fetched_in_cycle fetch)"
    using fetch_and_publish_publishes_fetched[of fetch st configured_apps]
    by (auto simp: producer_cycle_def fetched_in_cycle_def)
  have "review_id r \<in> seen (producer_cycle fetch st)"
    unfolding producer_cycle_def
    using fetch_and_publish_sees_fetched[where fetch = fetch and b = b,
        OF all_apps_configured fetched r] .
  then obtain r' where r': "r' \<in> set new" "review_id r' = review_id r"
    using new(2) unseen by auto
  have p: "serialize r' \<in> set (published_in_cycle fetch st)"
    using r'(1) by (simp add: published_in_cycle_def new(1))
  have f: "r' \<in> set (fetched_in_cycle fetch)"
    using r'(1) new(3) by blast
  have l: "(a, e) \<in> set (logged (producer_cycle fetch st))"
    unfolding producer_cycle_def
    using fetch_and_publish_logs_failure[where fetch = fetch and a = a,
        OF all_apps_configured failed] .
  show ?thesis
    using l p f r'(2) by blast
qed

theorem failed_fetch_does_not_stop_the_cycle_witness:
  "exampleFetch TouchNGo = Inl NetworkError \<and>
   exampleFetch ShopeePay = Inr [exampleMessage2] \<and>
   exampleMessage2 \<in> set [exampleMessage2] \<and>
   review_id exampleMessage2 \<notin> seen initial_state \<and>
   fetched_in_cycle exampleFetch = [exampleMessage, exampleMessage2] \<and>
   logged (producer_cycle exampleFetch initial_state) = [(TouchNGo, NetworkError)] \<and>
   published_in_cycle exampleFetch initial_state =
     [serialize exampleMessage, serialize exampleMessage2] \<and>
   serialize exampleMessage2 \<in> set (published_in_cycle exampleFetch initial_state)"
proof -
  have f: "exampleFetch TouchNGo = Inl NetworkError" by (simp add: exampleFetch_def)
  have b: "exampleFetch ShopeePay = Inr [exampleMessage2]" by (simp add: exampleFetch_def)
  have r: "exampleMessage2 \<in> set [exampleMessage2]" by simp
  have u: "review_id exampleMessage2 \<notin> seen initial_state" by (simp add: initial_state_def)
  have c: "fetched_in_cycle exampleFetch = [exampleMessage, exampleMessage2]"
    by (simp add: fetched_in_cycle_def fetched_from_def configured_apps_def exampleFetch_def)
  have l: "logged (producer_cycle exampleFetch initial_state) = [(TouchNGo, NetworkError)]"
    by (simp add: producer_cycle_def configured_apps_def exampleFetch_def initial_state_def
        exampleMessage_def exampleMessage2_def)
  have p: "published_in_cycle exampleFetch initial_state =
     [serialize exampleMessage, serialize exampleMessage2]"
    by (simp add: published_in_cycle_def producer_cycle_def configured_apps_def exampleFetch_def
        initial_state_def exampleMessage_def exampleMessage2_def)
  have only: "\<forall>r' \<in> set (fetched_in_cycle exampleFetch).
      review_id r' = review_id exampleMessage2 \<longrightarrow> r' = exampleMessage2"
    by (simp add: c exampleMessage_def exampleMessage2_def)
  show ?thesis
    using f b r u c l p only failed_fetch_does_not_stop_the_cycle[OF f b r u] by blast
qed



text \<open>
  Claim C10. The training split is reproducible: on the same input data, two runs of
  \<^verbatim>\<open>randomSplit([0.8, 0.2], seed=42)\<close>, whatever the states \<open>g1\<close> and \<open>g2\<close> of the
  interpreter's random generator in the two runs, both return, and return the same
  training set (the rows whose draw lies in \<open>[0, 0.8)\<close>) and the same test set (the rows
  whose draw lies in \<open>[0.8, 1)\<close>).
\<close>

theorem training_split_is_reproducible:
  "\<exists>training_data test_data.
     fst (training_and_test lib g1 df_cleaned) = Inr [training_data, test_data] \<and>
     fst (training_and_test lib g2 df_cleaned) = Inr [training_data, test_data] \<and>
     training_data = sample lib 0 0.8 42 df_cleaned \<and>
     test_data = sample lib 0.8 1 42 df_cleaned"
  using normalizedCumWeights_80_20
  by (simp add: training_and_test_def randomSplit_def)


end
